theory Spec2Isabelle
  imports Main "HOL-Library.AList" "HOL-Library.Char_ord" "HOL-Library.List_Lexorder"
    "HOL-Library.Monad_Syntax"
begin

section \<open>Data model (afd/representacao.py)\<close>

text \<open>
  The class \<^verbatim>\<open>AFD\<close> has five fields. A Python \<^verbatim>\<open>set\<close> that the program iterates over is
  modelled by a list that enumerates it: the order of the list stands for the iteration
  order, which Python leaves unspecified, and only \<open>set xs\<close> and \<open>card (set xs)\<close> are
  read where the program tests membership or takes \<^verbatim>\<open>len\<close>. The nested dictionary
  \<^verbatim>\<open>transicoes\<close> is an association list of association lists, looked up with \<open>map_of\<close>.
  The initial state is optional: \<open>None\<close> is Python's \<^verbatim>\<open>None\<close>. State labels of an input
  automaton are strings (type \<open>string\<close>); the states of a minimized automaton are
  \<^verbatim>\<open>frozenset\<close>s of labels (type \<open>'q set\<close>), so the record is polymorphic in the state type.
\<close>

record ('q, 's) AFD =
  alfabeto :: "'s list"
  estados :: "'q list"
  inicial :: "'q option"
  finais :: "'q list"
  transicoes :: "('q \<times> ('s \<times> 'q) list) list"

text \<open>\<^verbatim>\<open>AFD.__init__\<close>: the three collections are copied with \<^verbatim>\<open>set(...)\<close>.\<close>

definition AFD_init ::
  "'s list \<Rightarrow> 'q list \<Rightarrow> 'q option \<Rightarrow> 'q list \<Rightarrow> ('q \<times> ('s \<times> 'q) list) list \<Rightarrow> ('q, 's) AFD" where
  "AFD_init alf est ini fin tr =
     \<lparr>alfabeto = remdups alf, estados = remdups est, inicial = ini,
      finais = remdups fin, transicoes = tr\<rparr>"

text \<open>\<^verbatim>\<open>afd.transicoes.get(q, {}).get(s)\<close>\<close>

definition destino :: "('q, 's) AFD \<Rightarrow> 'q \<Rightarrow> 's \<Rightarrow> 'q option" where
  "destino afd q s =
     (case map_of (transicoes afd) q of None \<Rightarrow> None | Some linha \<Rightarrow> map_of linha s)"

text \<open>\<^verbatim>\<open>afd.inicial in S\<close>\<close>

definition inicial_em :: "('q, 's) AFD \<Rightarrow> 'q set \<Rightarrow> bool" where
  "inicial_em afd S = (case inicial afd of None \<Rightarrow> False | Some q \<Rightarrow> q \<in> S)"

section \<open>Reachability (minimizador/helpers.py, minimizador/validador.py)\<close>

text \<open>
  The body of the \<^verbatim>\<open>for simbolo in afd.alfabeto\<close> loop of the breadth-first search, on the
  pair (\<^verbatim>\<open>alcancaveis\<close>, \<^verbatim>\<open>fila\<close>).
\<close>

fun alcancaveis_for ::
  "('q, 's) AFD \<Rightarrow> 'q \<Rightarrow> 's list \<Rightarrow> 'q list \<times> 'q list \<Rightarrow> 'q list \<times> 'q list" where
  "alcancaveis_for afd estado_atual [] (alc, fila) = (alc, fila)"
| "alcancaveis_for afd estado_atual (simbolo # resto) (alc, fila) =
     (case destino afd estado_atual simbolo of
        None \<Rightarrow> alcancaveis_for afd estado_atual resto (alc, fila)
      | Some proximo \<Rightarrow>
          if proximo \<notin> set alc \<and> proximo \<in> set (estados afd)
          then alcancaveis_for afd estado_atual resto (alc @ [proximo], fila @ [proximo])
          else alcancaveis_for afd estado_atual resto (alc, fila))"

lemma alcancaveis_for_medida:
  "alcancaveis_for afd q ss (alc, fila) = (alc', fila') \<Longrightarrow>
   card (set (estados afd) - set alc') + length fila' =
   card (set (estados afd) - set alc) + length fila"
proof (induction ss arbitrary: alc fila)
  case Nil
  then show ?case by simp
next
  case (Cons s ss)
  show ?case
  proof (cases "destino afd q s")
    case None
    with Cons show ?thesis by simp
  next
    case (Some p)
    show ?thesis
    proof (cases "p \<notin> set alc \<and> p \<in> set (estados afd)")
      case True
      with Cons.prems Some
      have "alcancaveis_for afd q ss (alc @ [p], fila @ [p]) = (alc', fila')" by simp
      from Cons.IH [OF this]
      have "card (set (estados afd) - set alc') + length fila' =
            card (set (estados afd) - set (alc @ [p])) + length (fila @ [p])" .
      moreover have "set (estados afd) - set (alc @ [p]) = (set (estados afd) - set alc) - {p}"
        by auto
      moreover have "p \<in> set (estados afd) - set alc" using True by simp
      then have "card ((set (estados afd) - set alc) - {p}) + 1 =
                 card (set (estados afd) - set alc)"
        by (metis List.finite_set finite_Diff card.remove add.commute plus_1_eq_Suc)
      ultimately show ?thesis by simp
    next
      case False
      with Cons Some show ?thesis by auto
    qed
  qed
qed

text \<open>The \<^verbatim>\<open>while fila\<close> loop: \<^verbatim>\<open>fila.popleft()\<close> takes the head of the queue.\<close>

function alcancaveis_while :: "('q, 's) AFD \<Rightarrow> 'q list \<Rightarrow> 'q list \<Rightarrow> 'q list" where
  "alcancaveis_while afd alc [] = alc"
| "alcancaveis_while afd alc (estado_atual # fila) =
     (if map_of (transicoes afd) estado_atual \<noteq> None
      then (let r = alcancaveis_for afd estado_atual (alfabeto afd) (alc, fila)
            in alcancaveis_while afd (fst r) (snd r))
      else alcancaveis_while afd alc fila)"
  by pat_completeness auto
termination
proof (relation "measure (\<lambda>(afd, alc, fila). card (set (estados afd) - set alc) + length fila)",
       goal_cases)
  case 1
  show ?case by simp
next
  case (2 afd alc estado_atual fila r)
  then have "alcancaveis_for afd estado_atual (alfabeto afd) (alc, fila) = (fst r, snd r)"
    by simp
  from alcancaveis_for_medida [OF this] show ?case by (simp add: case_prod_beta)
next
  case (3 afd alc estado_atual fila)
  show ?case by simp
qed

text \<open>\<^verbatim>\<open>_encontrar_estados_alcancaveis\<close> (helpers.py)\<close>

definition encontrar_estados_alcancaveis :: "('q, 's) AFD \<Rightarrow> 'q list" where
  "encontrar_estados_alcancaveis afd =
     (if estados afd = [] \<or> \<not> inicial_em afd (set (estados afd)) then []
      else case inicial afd of None \<Rightarrow> [] | Some q0 \<Rightarrow> alcancaveis_while afd [q0] [q0])"

section \<open>Validator (minimizador/validador.py)\<close>

text \<open>
  A diagnostic of the validator is a string that starts with \<^verbatim>\<open>ERRO:\<close> or \<^verbatim>\<open>AVISO:\<close>. The
  model keeps the tag and, in place of the formatted text, the values the text is built
  from.
\<close>

datatype severidade = ERRO | AVISO

datatype ('q, 's) texto =
    ObjetoVazio
  | InicialForaDosEstados "'q option"
  | FinaisForaDosEstados "'q set"
  | OrigemForaDosEstados 'q
  | SimboloForaDoAlfabeto 's 'q 'q
  | DestinoForaDosEstados 'q 'q 's
  | TransicaoAusente 'q 's
  | EstadosInalcancaveis "'q option" "'q set"
  | AlcancaveisIndeterminados "'q option"

type_synonym ('q, 's) mensagem = "severidade \<times> ('q, 's) texto"

text \<open>
  \<^verbatim>\<open>_verificar_consistencia\<close>, check 3: the loop over the items of one row (symbol and
  destination), on the pair (\<^verbatim>\<open>mensagens\<close>, \<^verbatim>\<open>erros_consistencia\<close>).
\<close>

fun consistencia_linha ::
  "('q, 's) AFD \<Rightarrow> 'q \<Rightarrow> ('s \<times> 'q) list \<Rightarrow> ('q, 's) mensagem list \<times> nat \<Rightarrow>
   ('q, 's) mensagem list \<times> nat" where
  "consistencia_linha afd origem [] (ms, n) = (ms, n)"
| "consistencia_linha afd origem ((simbolo, dest) # resto) (ms, n) =
     (let (ms1, n1) =
            (if simbolo \<notin> set (alfabeto afd)
             then (ms @ [(ERRO, SimboloForaDoAlfabeto simbolo origem dest)], n + 1)
             else (ms, n));
          (ms2, n2) =
            (if dest \<notin> set (estados afd)
             then (ms1 @ [(ERRO, DestinoForaDosEstados dest origem simbolo)], n1 + 1)
             else (ms1, n1))
      in consistencia_linha afd origem resto (ms2, n2))"

text \<open>The loop over the items of \<^verbatim>\<open>afd.transicoes\<close> (source state and row).\<close>

fun consistencia_transicoes ::
  "('q, 's) AFD \<Rightarrow> ('q \<times> ('s \<times> 'q) list) list \<Rightarrow> ('q, 's) mensagem list \<times> nat \<Rightarrow>
   ('q, 's) mensagem list \<times> nat" where
  "consistencia_transicoes afd [] (ms, n) = (ms, n)"
| "consistencia_transicoes afd ((origem, linha) # resto) (ms, n) =
     (let (ms1, n1) =
            (if origem \<notin> set (estados afd)
             then (ms @ [(ERRO, OrigemForaDosEstados origem)], n + 1)
             else (ms, n))
      in consistencia_transicoes afd resto (consistencia_linha afd origem linha (ms1, n1)))"

text \<open>\<^verbatim>\<open>_verificar_consistencia(afd, mensagens)\<close>: the result and the extended list.\<close>

definition verificar_consistencia ::
  "('q, 's) AFD \<Rightarrow> ('q, 's) mensagem list \<Rightarrow> bool \<times> ('q, 's) mensagem list" where
  "verificar_consistencia afd mensagens =
     (let (ms1, n1) =
            (if \<not> inicial_em afd (set (estados afd))
             then (mensagens @ [(ERRO, InicialForaDosEstados (inicial afd))], 1)
             else (mensagens, 0));
          estados_finais_invalidos = set (finais afd) - set (estados afd);
          (ms2, n2) =
            (if estados_finais_invalidos \<noteq> {}
             then (ms1 @ [(ERRO, FinaisForaDosEstados estados_finais_invalidos)], n1 + 1)
             else (ms1, n1));
          (ms3, n3) = consistencia_transicoes afd (transicoes afd) (ms2, n2)
      in (n3 = 0, ms3))"

text \<open>
  \<^verbatim>\<open>_verificar_determinismo\<close>: the inner loop over the alphabet for one state, on the pair
  (\<^verbatim>\<open>mensagens\<close>, \<^verbatim>\<open>determinismo_ok\<close>), and the outer loop over the states.
\<close>

fun determinismo_simbolos ::
  "('q, 's) AFD \<Rightarrow> 'q \<Rightarrow> 's list \<Rightarrow> ('q, 's) mensagem list \<times> bool \<Rightarrow>
   ('q, 's) mensagem list \<times> bool" where
  "determinismo_simbolos afd estado [] (ms, ok) = (ms, ok)"
| "determinismo_simbolos afd estado (simbolo # resto) (ms, ok) =
     (if map_of (transicoes afd) estado = None \<or> destino afd estado simbolo = None
      then determinismo_simbolos afd estado resto
             (ms @ [(ERRO, TransicaoAusente estado simbolo)], False)
      else determinismo_simbolos afd estado resto (ms, ok))"

fun determinismo_estados ::
  "('q, 's) AFD \<Rightarrow> 'q list \<Rightarrow> ('q, 's) mensagem list \<times> bool \<Rightarrow>
   ('q, 's) mensagem list \<times> bool" where
  "determinismo_estados afd [] (ms, ok) = (ms, ok)"
| "determinismo_estados afd (estado # resto) (ms, ok) =
     determinismo_estados afd resto (determinismo_simbolos afd estado (alfabeto afd) (ms, ok))"

definition verificar_determinismo ::
  "('q, 's) AFD \<Rightarrow> ('q, 's) mensagem list \<Rightarrow> bool \<times> ('q, 's) mensagem list" where
  "verificar_determinismo afd mensagens =
     (let (ms, ok) = determinismo_estados afd (estados afd) (mensagens, True) in (ok, ms))"

text \<open>
  \<^verbatim>\<open>_verificar_alcancabilidade\<close>: the same breadth-first search as in helpers.py, then the
  warning about the states it did not reach. The result is the reachable set and the
  extended list.
\<close>

definition verificar_alcancabilidade ::
  "('q, 's) AFD \<Rightarrow> ('q, 's) mensagem list \<Rightarrow> 'q list \<times> ('q, 's) mensagem list" where
  "verificar_alcancabilidade afd mensagens =
     (if estados afd = [] then ([], mensagens)
      else if \<not> inicial_em afd (set (estados afd)) then ([], mensagens)
      else case inicial afd of
             None \<Rightarrow> ([], mensagens)
           | Some q0 \<Rightarrow>
               (let alcancaveis = alcancaveis_while afd [q0] [q0];
                    estados_inalcancaveis = set (estados afd) - set alcancaveis
                in (alcancaveis,
                    if estados_inalcancaveis \<noteq> {}
                    then mensagens @ [(AVISO, EstadosInalcancaveis (inicial afd) estados_inalcancaveis)]
                    else mensagens)))"

text \<open>
  \<^verbatim>\<open>not afd.inicial\<close> for a string label or \<^verbatim>\<open>None\<close>: the initial state is missing when it
  is \<^verbatim>\<open>None\<close> or the empty string.
\<close>

definition inicial_ausente :: "string option \<Rightarrow> bool" where
  "inicial_ausente ini = (ini = None \<or> ini = Some [])"

text \<open>
  \<^verbatim>\<open>validar_afd\<close>. An \<^verbatim>\<open>AFD\<close> object defines neither \<^verbatim>\<open>__bool__\<close> nor \<^verbatim>\<open>__len__\<close>, so
  \<^verbatim>\<open>not afd\<close> is false for every object of the class. The result is the triple
  (\<^verbatim>\<open>is_valido\<close>, \<^verbatim>\<open>mensagens\<close>, \<^verbatim>\<open>estados_alcancaveis\<close>).
\<close>

definition validar_afd ::
  "(string, 's) AFD \<Rightarrow> bool \<times> (string, 's) mensagem list \<times> string list option" where
  "validar_afd afd =
     (if estados afd = [] \<or> alfabeto afd = [] \<or> inicial_ausente (inicial afd)
      then (False, [(ERRO, ObjetoVazio)], None)
      else
        (let (consistente_ok, ms1) = verificar_consistencia afd [];
             is_valido1 = (if \<not> consistente_ok then False else True);
             (determinismo_ok, ms2) = verificar_determinismo afd ms1;
             is_valido2 = (if \<not> determinismo_ok then False else is_valido1)
         in if inicial_em afd (set (estados afd))
            then (let (estados_alcancaveis, ms3) = verificar_alcancabilidade afd ms2
                  in if estados_alcancaveis = [] \<and> estados afd \<noteq> []
                     then (False, ms3 @ [(ERRO, AlcancaveisIndeterminados (inicial afd))],
                           Some estados_alcancaveis)
                     else (is_valido2, ms3, Some estados_alcancaveis))
            else (is_valido2, ms2, None)))"

section \<open>Disjoint sets (class DSU, minimizador/algoritmo.py)\<close>

text \<open>
  The state of a \<^verbatim>\<open>DSU\<close> object is its dictionary \<^verbatim>\<open>parent\<close>. A method takes the
  dictionary and returns the new one. \<open>None\<close> as the result of a method means that the
  call raises: \<^verbatim>\<open>KeyError\<close> for an item the dictionary does not have, or unbounded
  recursion when the parent links form a cycle.
\<close>

type_synonym 'q dsu = "'q \<rightharpoonup> 'q"

definition DSU_init :: "'q list \<Rightarrow> 'q dsu" where
  "DSU_init items = map_of (map (\<lambda>item. (item, item)) items)"

partial_function (option) dsu_find :: "'q dsu \<Rightarrow> 'q \<Rightarrow> ('q \<times> 'q dsu) option" where
  "dsu_find parent item =
     (case parent item of
        None \<Rightarrow> None
      | Some p \<Rightarrow>
          if p = item then Some (item, parent)
          else do {
            (root, parent') \<leftarrow> dsu_find parent p;
            Some (root, parent'(item \<mapsto> root))
          })"

declare dsu_find.simps [code]

definition dsu_union :: "'q dsu \<Rightarrow> 'q \<Rightarrow> 'q \<Rightarrow> 'q dsu option" where
  "dsu_union parent item1 item2 =
     do {
       (root1, parent1) \<leftarrow> dsu_find parent item1;
       (root2, parent2) \<leftarrow> dsu_find parent1 item2;
       Some (if root1 \<noteq> root2 then parent2(root1 \<mapsto> root2) else parent2)
     }"

section \<open>Table filling (minimizar\_afd, part 1)\<close>

text \<open>\<^verbatim>\<open>itertools.combinations(xs, 2)\<close>\<close>

fun combinations2 :: "'a list \<Rightarrow> ('a \<times> 'a) list" where
  "combinations2 [] = []"
| "combinations2 (x # xs) = map (Pair x) xs @ combinations2 xs"

text \<open>
  The set \<^verbatim>\<open>marked_pairs\<close> holds \<^verbatim>\<open>frozenset({p, q})\<close> values: a set of sets of states.
  The initialisation marks every pair of a reachable final and a reachable non-final
  state.
\<close>

definition marcacao_inicial :: "'q list \<Rightarrow> 'q list \<Rightarrow> 'q set set" where
  "marcacao_inicial finais_alcancaveis non_finais_alcancaveis =
     fold (\<lambda>p marked. fold (\<lambda>q marked. if p \<noteq> q then insert {p, q} marked else marked)
                        non_finais_alcancaveis marked)
          finais_alcancaveis {}"

text \<open>
  The loop \<^verbatim>\<open>for simbolo in alfabeto\<close> for one unmarked pair: \<open>True\<close> when the loop reaches
  \<^verbatim>\<open>newly_marked.add(pair); break\<close>, \<open>False\<close> when it runs to its end.
\<close>

fun marca_par :: "('q, 's) AFD \<Rightarrow> 'q set set \<Rightarrow> 'q \<Rightarrow> 'q \<Rightarrow> 's list \<Rightarrow> bool" where
  "marca_par afd marked_pairs p q [] = False"
| "marca_par afd marked_pairs p q (simbolo # resto) =
     (case destino afd p simbolo of
        None \<Rightarrow> marca_par afd marked_pairs p q resto
      | Some next_p \<Rightarrow>
          (case destino afd q simbolo of
             None \<Rightarrow> marca_par afd marked_pairs p q resto
           | Some next_q \<Rightarrow>
               if next_p \<noteq> next_q \<and> {next_p, next_q} \<in> marked_pairs then True
               else marca_par afd marked_pairs p q resto))"

text \<open>One pass: the loop \<^verbatim>\<open>for p, q in state_pairs\<close>, accumulating \<^verbatim>\<open>newly_marked\<close>.\<close>

fun passada ::
  "('q, 's) AFD \<Rightarrow> 'q set set \<Rightarrow> ('q \<times> 'q) list \<Rightarrow> 'q set set \<Rightarrow> 'q set set" where
  "passada afd marked_pairs [] newly_marked = newly_marked"
| "passada afd marked_pairs ((p, q) # resto) newly_marked =
     (if {p, q} \<in> marked_pairs then passada afd marked_pairs resto newly_marked
      else if marca_par afd marked_pairs p q (alfabeto afd)
           then passada afd marked_pairs resto (insert {p, q} newly_marked)
           else passada afd marked_pairs resto newly_marked)"

text \<open>
  The events of the generator. The payload of an \<^verbatim>\<open>info\<close> or \<^verbatim>\<open>error\<close> event is the
  message, kept as the values it is formatted from; the payload of a \<^verbatim>\<open>step_table\<close> or
  \<^verbatim>\<open>step_update\<close> event is the pass number and the set of pairs that the text lists.
\<close>

datatype 'q info =
    EncontrandoAlcancaveis
  | TrabalhandoCom nat "'q list"
  | InalcancaveisIgnorados "'q set"
  | PassoAPasso
  | NenhumaNovaMarcacao nat
  | Separador
  | ConstruindoMinimizado
  | ConstrucaoConcluida

datatype 'q erro =
    NenhumAlcancavel
  | InicialNaoAlcancavel "'q option"
  | NenhumaClasse

datatype ('q, 's) evento =
    Info "'q info"
  | Step_table nat "'q set set"
  | Step_update nat "'q set set"
  | Result "('q set, 's) AFD"
  | Error "'q erro"

lemma passada_subset:
  "passada afd M ps N \<subseteq> N \<union> ((\<lambda>(p, q). {p, q}) ` set ps - M)"
proof (induction ps arbitrary: N)
  case Nil
  show ?case by simp
next
  case (Cons a ps)
  obtain p q where a: "a = (p, q)" by (cases a)
  have "passada afd M ps N \<subseteq> N \<union> ((\<lambda>(p, q). {p, q}) ` set ps - M)"
    and "passada afd M ps (insert {p, q} N)
         \<subseteq> insert {p, q} N \<union> ((\<lambda>(p, q). {p, q}) ` set ps - M)"
    using Cons.IH by blast+
  then show ?case unfolding a by auto
qed

text \<open>
  The loop \<^verbatim>\<open>while True\<close>, from pass number \<^verbatim>\<open>passo\<close> on: the events it yields, and the values
  of \<^verbatim>\<open>marked_pairs\<close> and \<^verbatim>\<open>passo\<close> when it breaks.
\<close>

function iteracao ::
  "('q, 's) AFD \<Rightarrow> ('q \<times> 'q) list \<Rightarrow> 'q set set \<Rightarrow> nat \<Rightarrow>
   ('q, 's) evento list \<times> 'q set set \<times> nat" where
  "iteracao afd state_pairs marked_pairs passo =
     (let newly_marked = passada afd marked_pairs state_pairs {} in
      if newly_marked = {}
      then ([Info (NenhumaNovaMarcacao passo)], marked_pairs, passo)
      else (let r = iteracao afd state_pairs (marked_pairs \<union> newly_marked) (passo + 1)
            in ([Step_update passo newly_marked,
                 Step_table passo (marked_pairs \<union> newly_marked)] @ fst r, snd r)))"
  by pat_completeness auto
termination
proof (relation "measure (\<lambda>(afd, state_pairs, marked_pairs, passo).
                   card ((\<lambda>(p, q). {p, q}) ` set state_pairs - marked_pairs))",
       goal_cases)
  case 1
  show ?case by simp
next
  case (2 afd state_pairs marked_pairs passo newly_marked)
  let ?P = "(\<lambda>(p, q). {p, q}) ` set state_pairs"
  from 2 obtain x where x: "x \<in> newly_marked" by auto
  have sub: "newly_marked \<subseteq> ?P - marked_pairs"
    using passada_subset [of afd marked_pairs state_pairs "{}"] 2(1) by simp
  have "?P - (marked_pairs \<union> newly_marked) \<subset> ?P - marked_pairs"
    using x sub by auto
  then have "card (?P - (marked_pairs \<union> newly_marked)) < card (?P - marked_pairs)"
    by (intro psubset_card_mono) auto
  then show ?case by simp
qed

declare iteracao.simps [simp del]

section \<open>Construction of the minimized automaton (minimizar\_afd, part 2)\<close>

text \<open>The loop \<^verbatim>\<open>for p, q in state_pairs\<close> that unites the members of every unmarked pair.\<close>

fun unir_pares :: "'q set set \<Rightarrow> ('q \<times> 'q) list \<Rightarrow> 'q dsu \<Rightarrow> 'q dsu option" where
  "unir_pares marked_pairs [] dsu = Some dsu"
| "unir_pares marked_pairs ((p, q) # resto) dsu =
     (if {p, q} \<notin> marked_pairs
      then do { dsu' \<leftarrow> dsu_union dsu p q; unir_pares marked_pairs resto dsu' }
      else unir_pares marked_pairs resto dsu)"

text \<open>
  The loop \<^verbatim>\<open>for estado in estados_alcancaveis\<close> that fills the dictionary
  \<^verbatim>\<open>equivalence_classes\<close> (a \<^verbatim>\<open>defaultdict(set)\<close>, here an association list in insertion
  order); \<^verbatim>\<open>dsu.find\<close> compresses paths on the way.
\<close>

fun agrupar ::
  "'q list \<Rightarrow> 'q dsu \<times> ('q \<times> 'q set) list \<Rightarrow> ('q dsu \<times> ('q \<times> 'q set) list) option" where
  "agrupar [] (dsu, equivalence_classes) = Some (dsu, equivalence_classes)"
| "agrupar (estado # resto) (dsu, equivalence_classes) =
     do {
       (root, dsu') \<leftarrow> dsu_find dsu estado;
       agrupar resto
         (dsu', AList.update root
                  (insert estado (case map_of equivalence_classes root of
                                    None \<Rightarrow> {} | Some grupo \<Rightarrow> grupo))
                  equivalence_classes)
     }"

text \<open>
  \<^verbatim>\<open>state_to_class_fs = {orig: fs for fs in min_estados_fs for orig in fs}\<close>: a later class
  overwrites the entry of an earlier one.
\<close>

definition state_to_class :: "'q set list \<Rightarrow> 'q \<rightharpoonup> 'q set" where
  "state_to_class min_estados_fs =
     fold (\<lambda>fs m. (\<lambda>orig. if orig \<in> fs then Some fs else m orig)) min_estados_fs Map.empty"

text \<open>
  The transitions of one class: the loop \<^verbatim>\<open>for simbolo in alfabeto\<close> with the class
  \<^verbatim>\<open>fs_class\<close> and its representative \<^verbatim>\<open>rep\<close>, on the dictionary \<^verbatim>\<open>min_transicoes\<close> (a
  \<^verbatim>\<open>defaultdict(dict)\<close>). \<open>None\<close>: \<^verbatim>\<open>state_to_class_fs[orig_dest]\<close> raises \<^verbatim>\<open>KeyError\<close>.
\<close>

fun transicoes_classe ::
  "('q, 's) AFD \<Rightarrow> 'q list \<Rightarrow> ('q \<rightharpoonup> 'q set) \<Rightarrow> 'q set \<Rightarrow> 'q \<Rightarrow> 's list \<Rightarrow>
   ('q set \<times> ('s \<times> 'q set) list) list \<Rightarrow> ('q set \<times> ('s \<times> 'q set) list) list option" where
  "transicoes_classe afd estados_alcancaveis state_to_class_fs fs_class rep [] min_transicoes =
     Some min_transicoes"
| "transicoes_classe afd estados_alcancaveis state_to_class_fs fs_class rep (simbolo # resto)
     min_transicoes =
     (case destino afd rep simbolo of
        None \<Rightarrow>
          transicoes_classe afd estados_alcancaveis state_to_class_fs fs_class rep resto
            min_transicoes
      | Some orig_dest \<Rightarrow>
          if orig_dest \<in> set estados_alcancaveis
          then (case state_to_class_fs orig_dest of
                  None \<Rightarrow> None
                | Some classe_dest \<Rightarrow>
                    transicoes_classe afd estados_alcancaveis state_to_class_fs fs_class rep resto
                      (AList.update fs_class
                         (AList.update simbolo classe_dest
                            (case map_of min_transicoes fs_class of
                               None \<Rightarrow> [] | Some linha \<Rightarrow> linha))
                         min_transicoes))
          else transicoes_classe afd estados_alcancaveis state_to_class_fs fs_class rep resto
                 min_transicoes)"

text \<open>
  The loop \<^verbatim>\<open>for fs_class in min_estados_fs\<close>. The representative is
  \<^verbatim>\<open>next(iter(fs_class))\<close>, the first element of the class in its iteration order, which
  Python does not specify: the function \<open>primeiro\<close> stands for it, and the theorems below
  hold for every \<open>primeiro\<close> that returns a member of a non-empty class. On an empty class
  \<^verbatim>\<open>next\<close> raises \<^verbatim>\<open>StopIteration\<close>.
\<close>

fun transicoes_min ::
  "('q set \<Rightarrow> 'q) \<Rightarrow> ('q, 's) AFD \<Rightarrow> 'q list \<Rightarrow> ('q \<rightharpoonup> 'q set) \<Rightarrow> 'q set list \<Rightarrow>
   ('q set \<times> ('s \<times> 'q set) list) list \<Rightarrow> ('q set \<times> ('s \<times> 'q set) list) list option" where
  "transicoes_min primeiro afd estados_alcancaveis state_to_class_fs [] min_transicoes =
     Some min_transicoes"
| "transicoes_min primeiro afd estados_alcancaveis state_to_class_fs (fs_class # resto)
     min_transicoes =
     (if fs_class = {} then None
      else do {
        min_transicoes' \<leftarrow>
          transicoes_classe afd estados_alcancaveis state_to_class_fs fs_class
            (primeiro fs_class) (alfabeto afd) min_transicoes;
        transicoes_min primeiro afd estados_alcancaveis state_to_class_fs resto min_transicoes'
      })"

text \<open>
  Part 2 of \<^verbatim>\<open>minimizar_afd\<close>, from \<^verbatim>\<open>dsu = DSU(estados_alcancaveis)\<close> to the construction of
  \<^verbatim>\<open>minimized_afd\<close>. \<open>None\<close>: an exception is raised. \<open>Some None\<close>: no equivalence class
  (the error event of the source). \<open>Some (Some m)\<close>: the minimized automaton \<open>m\<close>.
\<close>

definition construir_minimizado ::
  "('q set \<Rightarrow> 'q) \<Rightarrow> ('q, 's) AFD \<Rightarrow> 'q list \<Rightarrow> ('q \<times> 'q) list \<Rightarrow> 'q set set \<Rightarrow> 'q list \<Rightarrow>
   ('q set, 's) AFD option option" where
  "construir_minimizado primeiro afd estados_alcancaveis state_pairs marked_pairs
     finais_alcancaveis =
     do {
       dsu \<leftarrow> unir_pares marked_pairs state_pairs (DSU_init estados_alcancaveis);
       (dsu', equivalence_classes) \<leftarrow> agrupar estados_alcancaveis (dsu, []);
       let min_estados_fs = remdups (map snd equivalence_classes);
       if min_estados_fs = [] then Some None
       else do {
         let state_to_class_fs = state_to_class min_estados_fs;
         min_inicial_fs \<leftarrow>
           (case inicial afd of None \<Rightarrow> None | Some q0 \<Rightarrow> state_to_class_fs q0);
         let min_finais_fs =
           filter (\<lambda>fs. \<exists>s\<in>fs. s \<in> set finais_alcancaveis) min_estados_fs;
         min_transicoes \<leftarrow>
           transicoes_min primeiro afd estados_alcancaveis state_to_class_fs min_estados_fs [];
         Some (Some (AFD_init (alfabeto afd) min_estados_fs (Some min_inicial_fs)
                       min_finais_fs min_transicoes))
       }
     }"

section \<open>The generator minimizar\_afd\<close>

text \<open>
  The result is the sequence of the events that the generator yields until it returns, or
  \<open>None\<close> when it raises an exception instead of returning.
  \<^verbatim>\<open>sorted(list(estados_alcancaveis))\<close> needs an order on the state labels: Python orders
  strings lexicographically by code point, as the order on \<open>string\<close> does.
\<close>

definition minimizar_afd ::
  "('q set \<Rightarrow> 'q) \<Rightarrow> ('q::linorder, 's) AFD \<Rightarrow> ('q, 's) evento list option" where
  "minimizar_afd primeiro afd_original =
     (let estados_alcancaveis = encontrar_estados_alcancaveis afd_original in
      if estados_alcancaveis = []
      then Some [Info EncontrandoAlcancaveis, Error NenhumAlcancavel]
      else if \<not> inicial_em afd_original (set estados_alcancaveis)
      then Some [Info EncontrandoAlcancaveis,
                 Error (InicialNaoAlcancavel (inicial afd_original))]
      else
        (let estados_lista_ordenada = sort estados_alcancaveis;
             state_pairs = combinations2 estados_lista_ordenada;
             finais_alcancaveis =
               filter (\<lambda>q. q \<in> set estados_alcancaveis) (finais afd_original);
             non_finais_alcancaveis =
               filter (\<lambda>q. q \<notin> set finais_alcancaveis) estados_alcancaveis;
             marked_pairs0 = marcacao_inicial finais_alcancaveis non_finais_alcancaveis;
             (eventos_iteracao, marked_pairs, passo) =
               iteracao afd_original state_pairs marked_pairs0 1;
             eventos =
               [Info EncontrandoAlcancaveis,
                Info (TrabalhandoCom (card (set estados_alcancaveis)) estados_lista_ordenada)]
               @ (if card (set estados_alcancaveis) < card (set (estados afd_original))
                  then [Info (InalcancaveisIgnorados
                                (set (estados afd_original) - set estados_alcancaveis))]
                  else [])
               @ [Info PassoAPasso, Step_table 0 marked_pairs0]
               @ eventos_iteracao
               @ [Info Separador, Info ConstruindoMinimizado]
         in case construir_minimizado primeiro afd_original estados_alcancaveis state_pairs
                   marked_pairs finais_alcancaveis of
              None \<Rightarrow> None
            | Some None \<Rightarrow> Some (eventos @ [Error NenhumaClasse])
            | Some (Some minimized_afd) \<Rightarrow>
                Some (eventos @ [Info ConstrucaoConcluida, Result minimized_afd])))"

text \<open>The \<^verbatim>\<open>type\<close> field of an event.\<close>

fun tipo :: "('q, 's) evento \<Rightarrow> string" where
  "tipo (Info m) = ''info''"
| "tipo (Step_table n t) = ''step_table''"
| "tipo (Step_update n t) = ''step_update''"
| "tipo (Result a) = ''result''"
| "tipo (Error m) = ''error''"

section \<open>Runs, acceptance and reachability\<close>

text \<open>
  The program has no function that runs an automaton on a word: the claims about accepted
  languages and reachable states are stated with the usual semantics of a deterministic
  automaton over the record, read through \<open>destino\<close>. A run is undefined (\<open>None\<close>) as soon as
  a transition is missing; a word is accepted when its run from the initial state is
  defined and ends in a final state; a state is reachable when some word leads to it from
  the initial state.
\<close>

fun executar :: "('q, 's) AFD \<Rightarrow> 'q \<Rightarrow> 's list \<Rightarrow> 'q option" where
  "executar afd q [] = Some q"
| "executar afd q (s # w) =
     (case destino afd q s of None \<Rightarrow> None | Some q' \<Rightarrow> executar afd q' w)"

definition aceita :: "('q, 's) AFD \<Rightarrow> 's list \<Rightarrow> bool" where
  "aceita afd w =
     (case inicial afd of
        None \<Rightarrow> False
      | Some q0 \<Rightarrow> (case executar afd q0 w of None \<Rightarrow> False | Some q \<Rightarrow> q \<in> set (finais afd)))"

definition alcancavel :: "('q, 's) AFD \<Rightarrow> 'q \<Rightarrow> bool" where
  "alcancavel afd q = (\<exists>q0 w. inicial afd = Some q0 \<and> executar afd q0 w = Some q)"


text \<open>The result is closed under the transitions that lead to declared states.\<close>

definition fechado :: "('q, 's) AFD \<Rightarrow> 'q set \<Rightarrow> 'q set \<Rightarrow> bool" where
  "fechado afd X Y =
     (\<forall>x\<in>X. \<forall>s\<in>set (alfabeto afd). \<forall>d. destino afd x s = Some d \<and> d \<in> set (estados afd) \<longrightarrow> d \<in> Y)"


section \<open>Structural properties of an automaton\<close>

text \<open>
  The conditions that the validator checks, as predicates on the record: every reference
  is to a declared state or symbol, and every state has a transition on every symbol.
\<close>

definition consistente :: "('q, 's) AFD \<Rightarrow> bool" where
  "consistente afd =
     (inicial_em afd (set (estados afd)) \<and> set (finais afd) \<subseteq> set (estados afd) \<and>
      (\<forall>(origem, linha)\<in>set (transicoes afd).
         origem \<in> set (estados afd) \<and>
         (\<forall>(simbolo, dest)\<in>set linha.
            simbolo \<in> set (alfabeto afd) \<and> dest \<in> set (estados afd))))"

definition completo :: "('q, 's) AFD \<Rightarrow> bool" where
  "completo afd =
     (\<forall>q\<in>set (estados afd). \<forall>s\<in>set (alfabeto afd). destino afd q s \<noteq> None)"


section \<open>The partition that a DSU represents\<close>

text \<open>
  \<open>raiz parent x r\<close>: following the parent links from \<open>x\<close> ends in the root \<open>r\<close>, the item
  that is its own parent. Two items are in the same set when they have the same root.
\<close>

inductive raiz :: "'q dsu \<Rightarrow> 'q \<Rightarrow> 'q \<Rightarrow> bool" for parent :: "'q dsu" where
  raiz_propria: "parent x = Some x \<Longrightarrow> raiz parent x x"
| raiz_passo: "parent x = Some p \<Longrightarrow> p \<noteq> x \<Longrightarrow> raiz parent p r \<Longrightarrow> raiz parent x r"

definition mesma_raiz :: "'q dsu \<Rightarrow> 'q \<Rightarrow> 'q \<Rightarrow> bool" where
  "mesma_raiz parent x y = (\<exists>r. raiz parent x r \<and> raiz parent y r)"

definition dsu_ok :: "'q set \<Rightarrow> 'q dsu \<Rightarrow> bool" where
  "dsu_ok R parent = (\<forall>x\<in>R. \<exists>r\<in>R. raiz parent x r)"


text \<open>The class of \<open>x\<close>: the items of \<open>R\<close> in the same set as \<open>x\<close>.\<close>

definition classe :: "'q dsu \<Rightarrow> 'q set \<Rightarrow> 'q \<Rightarrow> 'q set" where
  "classe m R x = {y \<in> R. mesma_raiz m x y}"


text \<open>
  Lookup in a nested association list, as \<open>destino\<close> does in the transitions of a record,
  and the property that every source, symbol and destination of such a list is declared.
\<close>

definition busca :: "('k \<times> ('s \<times> 'v) list) list \<Rightarrow> 'k \<Rightarrow> 's \<Rightarrow> 'v option" where
  "busca tr q s = (case map_of tr q of None \<Rightarrow> None | Some linha \<Rightarrow> map_of linha s)"

definition bem_formada :: "'k set \<Rightarrow> 's set \<Rightarrow> ('k \<times> ('s \<times> 'k) list) list \<Rightarrow> bool" where
  "bem_formada S A tr =
     (\<forall>(k, linha)\<in>set tr. k \<in> S \<and> (\<forall>(s, d)\<in>set linha. s \<in> A \<and> d \<in> S))"


section \<open>The local variables of minimizar\_afd\<close>

text \<open>
  The values that the local variables of \<^verbatim>\<open>minimizar_afd\<close> take for an input, under the names
  they have in the source: the candidate pairs, the reachable final and non-final states,
  the marked pairs after the initialisation (pass 0) and when the loop ends, the number of
  the last pass, the events of the loop, the disjoint sets after the unions, and the
  events yielded before the minimized automaton is built. The lemma
  \<open>minimizar_afd_eq\<close> below shows that the generator computes with exactly these values.
\<close>

definition state_pairs :: "('q::linorder, 's) AFD \<Rightarrow> ('q \<times> 'q) list" where
  "state_pairs afd = combinations2 (sort (encontrar_estados_alcancaveis afd))"

definition finais_alcancaveis :: "('q, 's) AFD \<Rightarrow> 'q list" where
  "finais_alcancaveis afd =
     filter (\<lambda>q. q \<in> set (encontrar_estados_alcancaveis afd)) (finais afd)"

definition non_finais_alcancaveis :: "('q, 's) AFD \<Rightarrow> 'q list" where
  "non_finais_alcancaveis afd =
     filter (\<lambda>q. q \<notin> set (finais_alcancaveis afd)) (encontrar_estados_alcancaveis afd)"

definition marcacao_passo0 :: "('q, 's) AFD \<Rightarrow> 'q set set" where
  "marcacao_passo0 afd =
     marcacao_inicial (finais_alcancaveis afd) (non_finais_alcancaveis afd)"

definition eventos_iteracao :: "('q::linorder, 's) AFD \<Rightarrow> ('q, 's) evento list" where
  "eventos_iteracao afd = fst (iteracao afd (state_pairs afd) (marcacao_passo0 afd) 1)"

definition marcacao_final :: "('q::linorder, 's) AFD \<Rightarrow> 'q set set" where
  "marcacao_final afd = fst (snd (iteracao afd (state_pairs afd) (marcacao_passo0 afd) 1))"

definition numero_de_passos :: "('q::linorder, 's) AFD \<Rightarrow> nat" where
  "numero_de_passos afd = snd (snd (iteracao afd (state_pairs afd) (marcacao_passo0 afd) 1))"

definition dsu_final :: "('q::linorder, 's) AFD \<Rightarrow> 'q dsu option" where
  "dsu_final afd =
     unir_pares (marcacao_final afd) (state_pairs afd)
       (DSU_init (encontrar_estados_alcancaveis afd))"

definition eventos_antes :: "('q::linorder, 's) AFD \<Rightarrow> ('q, 's) evento list" where
  "eventos_antes afd =
     [Info EncontrandoAlcancaveis,
      Info (TrabalhandoCom (card (set (encontrar_estados_alcancaveis afd)))
              (sort (encontrar_estados_alcancaveis afd)))]
     @ (if card (set (encontrar_estados_alcancaveis afd)) < card (set (estados afd))
        then [Info (InalcancaveisIgnorados
                      (set (estados afd) - set (encontrar_estados_alcancaveis afd)))]
        else [])
     @ [Info PassoAPasso, Step_table 0 (marcacao_passo0 afd)]
     @ eventos_iteracao afd
     @ [Info Separador, Info ConstruindoMinimizado]"


text \<open>
  What the construction yields for the reachable states \<open>alc\<close>, the reachable final states
  \<open>fa\<close>, the disjoint sets \<open>m\<close> and the initial state \<open>q0\<close>: the classes of \<open>m\<close> as states,
  and for each class the transitions of its representative.
\<close>

definition minimizado_por ::
  "('q set \<Rightarrow> 'q) \<Rightarrow> ('q, 's) AFD \<Rightarrow> 'q list \<Rightarrow> 'q list \<Rightarrow> 'q dsu \<Rightarrow> 'q \<Rightarrow> ('q set, 's) AFD \<Rightarrow> bool"
  where
  "minimizado_por primeiro afd alc fa m q0 mafd =
    (alfabeto mafd = remdups (alfabeto afd) \<and>
     set (estados mafd) = classe m (set alc) ` set alc \<and>
     inicial mafd = Some (classe m (set alc) q0) \<and>
     set (finais mafd) = {c \<in> classe m (set alc) ` set alc. \<exists>s\<in>c. s \<in> set fa} \<and>
     bem_formada (classe m (set alc) ` set alc) (set (alfabeto afd)) (transicoes mafd) \<and>
     (\<forall>c s. destino mafd c s =
        (if c \<in> classe m (set alc) ` set alc \<and> s \<in> set (alfabeto afd)
         then (case destino afd (primeiro c) s of
                 None \<Rightarrow> None
               | Some d \<Rightarrow> if d \<in> set alc then Some (classe m (set alc) d) else None)
         else None)))"


section \<open>Automata used as concrete inputs\<close>

text \<open>The example of \<^verbatim>\<open>algoritmo.py\<close> (scenario A of the specification).\<close>

definition cenario_A :: "(string, string) AFD" where
  "cenario_A =
     \<lparr>alfabeto = [''a'', ''b''],
      estados = [''A'', ''B'', ''C'', ''D'', ''E'', ''F''],
      inicial = Some ''A'',
      finais = [''C'', ''D''],
      transicoes =
        [(''A'', [(''a'', ''B''), (''b'', ''F'')]),
         (''B'', [(''a'', ''E''), (''b'', ''C'')]),
         (''C'', [(''a'', ''E''), (''b'', ''C'')]),
         (''D'', [(''a'', ''E''), (''b'', ''D'')]),
         (''E'', [(''a'', ''E''), (''b'', ''F'')]),
         (''F'', [(''a'', ''F''), (''b'', ''F'')])]\<rparr>"

text \<open>An automaton whose initial state is not one of its states.\<close>

definition afd_inicial_fora :: "(string, string) AFD" where
  "afd_inicial_fora =
     \<lparr>alfabeto = [''a''], estados = [''q0''], inicial = Some ''x'', finais = [],
      transicoes = [(''q0'', [(''a'', ''q0'')])]\<rparr>"

text \<open>Automata without states, without alphabet, and without initial state.\<close>

definition afd_sem_estados :: "(string, string) AFD" where
  "afd_sem_estados =
     \<lparr>alfabeto = [''a''], estados = [], inicial = Some ''q0'', finais = [], transicoes = []\<rparr>"

definition afd_sem_alfabeto :: "(string, string) AFD" where
  "afd_sem_alfabeto =
     \<lparr>alfabeto = [], estados = [''q0''], inicial = Some ''q0'', finais = [], transicoes = []\<rparr>"

definition afd_sem_inicial :: "(string, string) AFD" where
  "afd_sem_inicial =
     \<lparr>alfabeto = [''a''], estados = [''q0''], inicial = None, finais = [],
      transicoes = [(''q0'', [(''a'', ''q0'')])]\<rparr>"

text \<open>
  An automaton with an empty alphabet and two states, the second one unreachable. The
  parser builds it from a file whose \<^verbatim>\<open>alfabeto:\<close> line lists no symbol.
\<close>

definition afd_alfabeto_vazio :: "(string, string) AFD" where
  "afd_alfabeto_vazio =
     \<lparr>alfabeto = [], estados = [''q0'', ''q1''], inicial = Some ''q0'', finais = [],
      transicoes = []\<rparr>"

text \<open>
  Scenario D of the specification: two final states that agree on every transition target.
  The events that the generator yields for it, and the minimized automaton.
\<close>

definition cenario_D :: "(string, string) AFD" where
  "cenario_D =
     \<lparr>alfabeto = [''a''], estados = [''p'', ''q''], inicial = Some ''p'',
      finais = [''p'', ''q''],
      transicoes = [(''p'', [(''a'', ''q'')]), (''q'', [(''a'', ''q'')])]\<rparr>"

definition minimizado_D :: "(string set, string) AFD" where
  "minimizado_D =
     \<lparr>alfabeto = [''a''], estados = [{''p'', ''q''}], inicial = Some {''p'', ''q''},
      finais = [{''p'', ''q''}],
      transicoes = [({''p'', ''q''}, [(''a'', {''p'', ''q''})])]\<rparr>"

definition eventos_D :: "(string, string) evento list" where
  "eventos_D =
     [Info EncontrandoAlcancaveis, Info (TrabalhandoCom 2 [''p'', ''q'']), Info PassoAPasso,
      Step_table 0 {}, Info (NenhumaNovaMarcacao 1), Info Separador,
      Info ConstruindoMinimizado, Info ConstrucaoConcluida, Result minimizado_D]"


section \<open>The guard of the validator\<close>

text \<open>
  C5. For every AFD whose state set is empty, whose alphabet is empty, or whose initial
  state is missing, \<^verbatim>\<open>validar_afd\<close> returns at its first check: the result is invalid, the
  list of diagnostics holds exactly one message, an error, and there is no reachable set
  (\<open>None\<close>): the reachability check, which would set it, is not run.
\<close>

theorem validar_afd_guarda:
  "estados afd = [] \<or> alfabeto afd = [] \<or> inicial_ausente (inicial afd) \<Longrightarrow>
   validar_afd afd = (False, [(ERRO, ObjetoVazio)], None)"
  by (simp add: validar_afd_def)

theorem validar_afd_guarda_witness:
  "estados afd_sem_estados = [] \<and>
   validar_afd afd_sem_estados = (False, [(ERRO, ObjetoVazio)], None) \<and>
   alfabeto afd_sem_alfabeto = [] \<and>
   validar_afd afd_sem_alfabeto = (False, [(ERRO, ObjetoVazio)], None) \<and>
   inicial_ausente (inicial afd_sem_inicial) \<and>
   validar_afd (afd_sem_inicial :: (string, string) AFD) = (False, [(ERRO, ObjetoVazio)], None)"
proof -
  have 1: "estados afd_sem_estados = []" by (simp add: afd_sem_estados_def)
  have 2: "alfabeto afd_sem_alfabeto = []" by (simp add: afd_sem_alfabeto_def)
  have 3: "inicial_ausente (inicial afd_sem_inicial)"
    by (simp add: afd_sem_inicial_def inicial_ausente_def)
  show ?thesis
    using 1 2 3 validar_afd_guarda [of afd_sem_estados] validar_afd_guarda [of afd_sem_alfabeto]
      validar_afd_guarda [of afd_sem_inicial]
    by simp
qed

section \<open>The guards of the minimizer\<close>

text \<open>
  C4. For every input AFD, if the reachable set that \<^verbatim>\<open>minimizar_afd\<close> computes is empty, or
  the initial state is not in it, the generator yields the first \<^verbatim>\<open>info\<close> event, then one
  \<^verbatim>\<open>error\<close> event, and returns: the whole sequence of events is these two, so no
  \<^verbatim>\<open>step_table\<close>, \<^verbatim>\<open>step_update\<close> or \<^verbatim>\<open>result\<close> event is yielded.
\<close>

theorem minimizar_afd_guardas:
  "encontrar_estados_alcancaveis afd = [] \<or>
   \<not> inicial_em afd (set (encontrar_estados_alcancaveis afd)) \<Longrightarrow>
   minimizar_afd primeiro afd =
     Some [Info EncontrandoAlcancaveis,
           Error (if encontrar_estados_alcancaveis afd = [] then NenhumAlcancavel
                  else InicialNaoAlcancavel (inicial afd))]"
  by (auto simp: minimizar_afd_def Let_def)

theorem minimizar_afd_guardas_witness:
  "encontrar_estados_alcancaveis afd_inicial_fora = [] \<and>
   minimizar_afd Min afd_inicial_fora =
     Some [Info EncontrandoAlcancaveis, Error NenhumAlcancavel] \<and>
   map tipo (the (minimizar_afd Min afd_inicial_fora)) = [''info'', ''error'']"
proof -
  have h: "encontrar_estados_alcancaveis afd_inicial_fora = []"
    by (simp add: encontrar_estados_alcancaveis_def afd_inicial_fora_def inicial_em_def)
  show ?thesis
    using h minimizar_afd_guardas [of afd_inicial_fora Min] by simp
qed

section \<open>Properties of the breadth-first search\<close>

lemma destino_None_chave: "map_of (transicoes afd) q = None \<Longrightarrow> destino afd q s = None"
  by (simp add: destino_def)

lemma alcancaveis_for_props:
  "alcancaveis_for afd q ss (alc, fila) = (alc', fila') \<Longrightarrow>
   set alc \<subseteq> set alc' \<and>
   set fila' = set fila \<union> (set alc' - set alc) \<and>
   set alc' \<subseteq> set alc \<union> {d. \<exists>s\<in>set ss. destino afd q s = Some d \<and> d \<in> set (estados afd)} \<and>
   (\<forall>s\<in>set ss. \<forall>d. destino afd q s = Some d \<and> d \<in> set (estados afd) \<longrightarrow> d \<in> set alc') \<and>
   (distinct alc \<longrightarrow> distinct alc')"
proof (induction ss arbitrary: alc fila)
  case Nil
  then show ?case by auto
next
  case (Cons s ss)
  show ?case
  proof (cases "destino afd q s")
    case None
    with Cons.prems have "alcancaveis_for afd q ss (alc, fila) = (alc', fila')" by simp
    from Cons.IH [OF this] None show ?thesis by auto
  next
    case (Some p)
    show ?thesis
    proof (cases "p \<notin> set alc \<and> p \<in> set (estados afd)")
      case True
      with Cons.prems Some
      have "alcancaveis_for afd q ss (alc @ [p], fila @ [p]) = (alc', fila')" by simp
      from Cons.IH [OF this] Some True show ?thesis by auto
    next
      case False
      with Cons.prems Some have "alcancaveis_for afd q ss (alc, fila) = (alc', fila')" by auto
      from Cons.IH [OF this] Some False show ?thesis by auto
    qed
  qed
qed

lemma alcancaveis_while_mono: "set alc \<subseteq> set (alcancaveis_while afd alc fila)"
proof (induction afd alc fila rule: alcancaveis_while.induct)
  case (1 afd alc)
  show ?case by simp
next
  case (2 afd alc q fila)
  show ?case
  proof (cases "map_of (transicoes afd) q \<noteq> None")
    case True
    obtain alc' fila' where r: "alcancaveis_for afd q (alfabeto afd) (alc, fila) = (alc', fila')"
      by (cases "alcancaveis_for afd q (alfabeto afd) (alc, fila)")
    from 2(1) [OF True refl] r have "set alc' \<subseteq> set (alcancaveis_while afd alc' fila')" by simp
    moreover from alcancaveis_for_props [OF r] have "set alc \<subseteq> set alc'" by simp
    ultimately show ?thesis using True r by (auto simp: Let_def)
  next
    case False
    with 2(2) show ?thesis by simp
  qed
qed

lemma alcancaveis_while_distinct:
  "distinct alc \<Longrightarrow> distinct (alcancaveis_while afd alc fila)"
proof (induction afd alc fila rule: alcancaveis_while.induct)
  case (1 afd alc)
  then show ?case by simp
next
  case (2 afd alc q fila)
  show ?case
  proof (cases "map_of (transicoes afd) q \<noteq> None")
    case True
    obtain alc' fila' where r: "alcancaveis_for afd q (alfabeto afd) (alc, fila) = (alc', fila')"
      by (cases "alcancaveis_for afd q (alfabeto afd) (alc, fila)")
    from alcancaveis_for_props [OF r] 2(3) have "distinct alc'" by simp
    with 2(1) [OF True refl] r have "distinct (alcancaveis_while afd alc' fila')" by simp
    then show ?thesis using True r by (simp add: Let_def)
  next
    case False
    with 2 show ?thesis by simp
  qed
qed

text \<open>An invariant that holds of the visited states and is kept by the transitions followed.\<close>

lemma alcancaveis_while_invariante:
  "\<forall>x s d. P x \<and> s \<in> set (alfabeto afd) \<and> destino afd x s = Some d \<and> d \<in> set (estados afd)
             \<longrightarrow> P d \<Longrightarrow>
   \<forall>x\<in>set alc. P x \<Longrightarrow> set fila \<subseteq> set alc \<Longrightarrow>
   \<forall>x\<in>set (alcancaveis_while afd alc fila). P x"
proof (induction afd alc fila rule: alcancaveis_while.induct)
  case (1 afd alc)
  then show ?case by simp
next
  case (2 afd alc q fila)
  note step = "2.prems"(1)
  show ?case
  proof (cases "map_of (transicoes afd) q \<noteq> None")
    case True
    obtain alc' fila' where r: "alcancaveis_for afd q (alfabeto afd) (alc, fila) = (alc', fila')"
      by (cases "alcancaveis_for afd q (alfabeto afd) (alc, fila)")
    note pr = alcancaveis_for_props [OF r]
    have Pq: "P q" using "2.prems" by auto
    have a: "\<forall>x\<in>set alc'. P x"
    proof
      fix x assume "x \<in> set alc'"
      with pr have "x \<in> set alc \<or> (\<exists>s\<in>set (alfabeto afd). destino afd q s = Some x \<and> x \<in> set (estados afd))"
        by auto
      then show "P x" using "2.prems"(2) Pq step by blast
    qed
    have b: "set fila' \<subseteq> set alc'" using pr "2.prems"(3) by auto
    from "2.IH"(1) [OF True refl step] r a b
    have "\<forall>x\<in>set (alcancaveis_while afd alc' fila'). P x" by simp
    then show ?thesis using True r by (simp add: Let_def)
  next
    case False
    have "set fila \<subseteq> set alc" using "2.prems"(3) by auto
    from "2.IH"(2) [OF _ step "2.prems"(2) this] False show ?thesis by simp
  qed
qed

lemma alcancaveis_while_fechado:
  "set fila \<subseteq> set alc \<Longrightarrow> fechado afd (set alc - set fila) (set alc) \<Longrightarrow>
   fechado afd (set (alcancaveis_while afd alc fila)) (set (alcancaveis_while afd alc fila))"
proof (induction afd alc fila rule: alcancaveis_while.induct)
  case (1 afd alc)
  then show ?case by simp
next
  case (2 afd alc q fila)
  show ?case
  proof (cases "map_of (transicoes afd) q \<noteq> None")
    case True
    obtain alc' fila' where r: "alcancaveis_for afd q (alfabeto afd) (alc, fila) = (alc', fila')"
      by (cases "alcancaveis_for afd q (alfabeto afd) (alc, fila)")
    note pr = alcancaveis_for_props [OF r]
    have b: "set fila' \<subseteq> set alc'" using pr "2.prems"(1) by auto
    have c: "fechado afd (set alc' - set fila') (set alc')"
      unfolding fechado_def
    proof (intro ballI allI impI)
      fix x s d
      assume x: "x \<in> set alc' - set fila'" and s: "s \<in> set (alfabeto afd)"
        and d: "destino afd x s = Some d \<and> d \<in> set (estados afd)"
      from x pr have xa: "x \<in> set alc" "x \<notin> set fila" by auto
      show "d \<in> set alc'"
      proof (cases "x = q")
        case True
        with pr s d show ?thesis by blast
      next
        case False
        with xa have "x \<in> set alc - set (q # fila)" by simp
        with "2.prems"(2) s d have "d \<in> set alc" unfolding fechado_def by blast
        with pr show ?thesis by auto
      qed
    qed
    from "2.IH"(1) [OF True refl] r b c
    have "fechado afd (set (alcancaveis_while afd alc' fila')) (set (alcancaveis_while afd alc' fila'))"
      by simp
    then show ?thesis using True r by (simp add: Let_def)
  next
    case False
    have b: "set fila \<subseteq> set alc" using "2.prems"(1) by auto
    have c: "fechado afd (set alc - set fila) (set alc)"
      unfolding fechado_def
    proof (intro ballI allI impI)
      fix x s d
      assume x: "x \<in> set alc - set fila" and s: "s \<in> set (alfabeto afd)"
        and d: "destino afd x s = Some d \<and> d \<in> set (estados afd)"
      show "d \<in> set alc"
      proof (cases "x = q")
        case True
        with False d show ?thesis by (simp add: destino_def)
      next
        case False
        with x have "x \<in> set alc - set (q # fila)" by simp
        with "2.prems"(2) s d show ?thesis unfolding fechado_def by blast
      qed
    qed
    from "2.IH"(2) [OF _ b c] False show ?thesis by simp
  qed
qed



lemma executar_append:
  "executar afd q (u @ v) =
     (case executar afd q u of None \<Rightarrow> None | Some q' \<Rightarrow> executar afd q' v)"
  by (induction u arbitrary: q) (auto split: option.splits)

lemma encontrar_vazio_iff:
  "encontrar_estados_alcancaveis afd = [] \<longleftrightarrow>
   estados afd = [] \<or> \<not> inicial_em afd (set (estados afd))"
proof -
  have "alcancaveis_while afd [q0] [q0] \<noteq> []" for q0
    using alcancaveis_while_mono [of "[q0]" afd "[q0]"] by auto
  then show ?thesis
    by (auto simp: encontrar_estados_alcancaveis_def inicial_em_def split: option.splits)
qed

lemma encontrar_nao_vazio:
  assumes "encontrar_estados_alcancaveis afd \<noteq> []"
  obtains q0 where "inicial afd = Some q0" "q0 \<in> set (estados afd)"
    "encontrar_estados_alcancaveis afd = alcancaveis_while afd [q0] [q0]"
  using assms
  by (auto simp: encontrar_estados_alcancaveis_def inicial_em_def split: option.splits if_splits)

lemma encontrar_inicial:
  "encontrar_estados_alcancaveis afd \<noteq> [] \<Longrightarrow>
   inicial_em afd (set (encontrar_estados_alcancaveis afd))"
proof -
  assume a: "encontrar_estados_alcancaveis afd \<noteq> []"
  then obtain q0 where q0: "inicial afd = Some q0"
    "encontrar_estados_alcancaveis afd = alcancaveis_while afd [q0] [q0]"
    by (rule encontrar_nao_vazio)
  with alcancaveis_while_mono [of "[q0]" afd "[q0]"] show ?thesis
    by (simp add: inicial_em_def)
qed

lemma encontrar_distinct: "distinct (encontrar_estados_alcancaveis afd)"
proof (cases "encontrar_estados_alcancaveis afd = []")
  case True
  then show ?thesis by simp
next
  case False
  then obtain q0 where
    "encontrar_estados_alcancaveis afd = alcancaveis_while afd [q0] [q0]"
    by (rule encontrar_nao_vazio)
  moreover have "distinct (alcancaveis_while afd [q0] [q0])"
    by (rule alcancaveis_while_distinct) simp
  ultimately show ?thesis by simp
qed

lemma encontrar_subset: "set (encontrar_estados_alcancaveis afd) \<subseteq> set (estados afd)"
proof (cases "encontrar_estados_alcancaveis afd = []")
  case True
  then show ?thesis by simp
next
  case False
  then obtain q0 where q0: "inicial afd = Some q0" "q0 \<in> set (estados afd)"
    "encontrar_estados_alcancaveis afd = alcancaveis_while afd [q0] [q0]"
    by (rule encontrar_nao_vazio)
  have "\<forall>x\<in>set (alcancaveis_while afd [q0] [q0]). x \<in> set (estados afd)"
    by (rule alcancaveis_while_invariante) (use q0 in auto)
  with q0 show ?thesis by auto
qed

lemma encontrar_alcancavel:
  assumes "x \<in> set (encontrar_estados_alcancaveis afd)"
  shows "\<exists>q0 w. inicial afd = Some q0 \<and> set w \<subseteq> set (alfabeto afd) \<and>
                executar afd q0 w = Some x"
proof -
  from assms have "encontrar_estados_alcancaveis afd \<noteq> []" by auto
  then obtain q0 where q0: "inicial afd = Some q0" "q0 \<in> set (estados afd)"
    "encontrar_estados_alcancaveis afd = alcancaveis_while afd [q0] [q0]"
    by (rule encontrar_nao_vazio)
  let ?P = "\<lambda>x. \<exists>w. set w \<subseteq> set (alfabeto afd) \<and> executar afd q0 w = Some x"
  have "\<forall>x\<in>set (alcancaveis_while afd [q0] [q0]). ?P x"
  proof (rule alcancaveis_while_invariante)
    show "\<forall>x s d. ?P x \<and> s \<in> set (alfabeto afd) \<and> destino afd x s = Some d \<and>
             d \<in> set (estados afd) \<longrightarrow> ?P d"
    proof (intro allI impI)
      fix x s d
      assume h: "?P x \<and> s \<in> set (alfabeto afd) \<and> destino afd x s = Some d \<and>
             d \<in> set (estados afd)"
      then obtain w where w: "set w \<subseteq> set (alfabeto afd)" "executar afd q0 w = Some x" by blast
      with h have "set (w @ [s]) \<subseteq> set (alfabeto afd)" "executar afd q0 (w @ [s]) = Some d"
        by (auto simp: executar_append)
      then show "?P d" by blast
    qed
    have "executar afd q0 [] = Some q0" by simp
    then have "?P q0" by (metis empty_set empty_subsetI)
    then show "\<forall>x\<in>set [q0]. ?P x" by simp
    show "set [q0] \<subseteq> set [q0]" by simp
  qed
  with assms q0 show ?thesis by auto
qed

lemma encontrar_fechado:
  "x \<in> set (encontrar_estados_alcancaveis afd) \<Longrightarrow> s \<in> set (alfabeto afd) \<Longrightarrow>
   destino afd x s = Some d \<Longrightarrow> d \<in> set (estados afd) \<Longrightarrow>
   d \<in> set (encontrar_estados_alcancaveis afd)"
proof -
  assume x: "x \<in> set (encontrar_estados_alcancaveis afd)" and s: "s \<in> set (alfabeto afd)"
    and d: "destino afd x s = Some d" "d \<in> set (estados afd)"
  from x have "encontrar_estados_alcancaveis afd \<noteq> []" by auto
  then obtain q0 where q0: "inicial afd = Some q0" "q0 \<in> set (estados afd)"
    "encontrar_estados_alcancaveis afd = alcancaveis_while afd [q0] [q0]"
    by (rule encontrar_nao_vazio)
  have "fechado afd (set (alcancaveis_while afd [q0] [q0])) (set (alcancaveis_while afd [q0] [q0]))"
    by (rule alcancaveis_while_fechado) (simp_all add: fechado_def)
  with x s d q0 show ?thesis unfolding fechado_def by auto
qed

section \<open>Properties of the validator\<close>

lemma consistencia_linha_spec:
  "\<exists>xs. consistencia_linha (afd :: ('q, 's) AFD) origem linha (ms, n) =
          (ms @ xs, n + length xs) \<and>
        (\<forall>m\<in>set xs. fst m = ERRO) \<and>
        (xs = [] \<longleftrightarrow> (\<forall>(simbolo, dest)\<in>set linha.
                          simbolo \<in> set (alfabeto afd) \<and> dest \<in> set (estados afd)))"
proof (induction linha arbitrary: ms n)
  case Nil
  show ?case by simp
next
  case (Cons a linha)
  obtain simbolo dest where a: "a = (simbolo, dest)" by (cases a)
  let ?e1 = "if simbolo \<notin> set (alfabeto afd)
             then [(ERRO, SimboloForaDoAlfabeto simbolo origem dest)] else []"
  let ?e2 = "if dest \<notin> set (estados afd)
             then [(ERRO, DestinoForaDosEstados dest origem simbolo)] else []"
  have step: "consistencia_linha afd origem (a # linha) (ms, n) =
        consistencia_linha afd origem linha (ms @ ?e1 @ ?e2, n + length (?e1 @ ?e2))"
    unfolding a by simp
  from Cons.IH [of "ms @ ?e1 @ ?e2" "n + length (?e1 @ ?e2)"]
  obtain xs where xs:
    "consistencia_linha afd origem linha (ms @ ?e1 @ ?e2, n + length (?e1 @ ?e2)) =
       ((ms @ ?e1 @ ?e2) @ xs, n + length (?e1 @ ?e2) + length xs)"
    "\<forall>m\<in>set xs. fst m = ERRO"
    "xs = [] \<longleftrightarrow> (\<forall>(simbolo, dest)\<in>set linha.
                          simbolo \<in> set (alfabeto afd) \<and> dest \<in> set (estados afd))"
    by blast
  show ?case
  proof (intro exI conjI)
    show "consistencia_linha afd origem (a # linha) (ms, n) =
          (ms @ (?e1 @ ?e2 @ xs), n + length (?e1 @ ?e2 @ xs))"
      using step xs(1) by simp
    show "\<forall>m\<in>set (?e1 @ ?e2 @ xs). fst m = ERRO" using xs(2) by auto
    show "(?e1 @ ?e2 @ xs = []) \<longleftrightarrow> (\<forall>(simbolo, dest)\<in>set (a # linha).
                          simbolo \<in> set (alfabeto afd) \<and> dest \<in> set (estados afd))"
      using xs(3) unfolding a by auto
  qed
qed

lemma consistencia_transicoes_spec:
  "\<exists>xs. consistencia_transicoes (afd :: ('q, 's) AFD) tr (ms, n) = (ms @ xs, n + length xs) \<and>
        (\<forall>m\<in>set xs. fst m = ERRO) \<and>
        (xs = [] \<longleftrightarrow> (\<forall>(origem, linha)\<in>set tr.
           origem \<in> set (estados afd) \<and>
           (\<forall>(simbolo, dest)\<in>set linha.
              simbolo \<in> set (alfabeto afd) \<and> dest \<in> set (estados afd))))"
proof (induction tr arbitrary: ms n)
  case Nil
  show ?case by simp
next
  case (Cons a tr)
  obtain origem linha where a: "a = (origem, linha)" by (cases a)
  let ?e1 = "(if origem \<notin> set (estados afd) then [(ERRO, OrigemForaDosEstados origem)]
              else []) :: ('q, 's) mensagem list"
  from consistencia_linha_spec [of afd origem linha "ms @ ?e1" "n + length ?e1"]
  obtain ys where ys:
    "consistencia_linha afd origem linha (ms @ ?e1, n + length ?e1) =
       ((ms @ ?e1) @ ys, n + length ?e1 + length ys)"
    "\<forall>m\<in>set ys. fst m = ERRO"
    "ys = [] \<longleftrightarrow> (\<forall>(simbolo, dest)\<in>set linha.
                          simbolo \<in> set (alfabeto afd) \<and> dest \<in> set (estados afd))"
    by blast
  have step: "consistencia_transicoes afd (a # tr) (ms, n) =
        consistencia_transicoes afd tr (ms @ ?e1 @ ys, n + length (?e1 @ ys))"
    unfolding a using ys(1) by (cases "origem \<in> set (estados afd)") simp_all
  from Cons.IH [of "ms @ ?e1 @ ys" "n + length (?e1 @ ys)"]
  obtain xs where xs:
    "consistencia_transicoes afd tr (ms @ ?e1 @ ys, n + length (?e1 @ ys)) =
       ((ms @ ?e1 @ ys) @ xs, n + length (?e1 @ ys) + length xs)"
    "\<forall>m\<in>set xs. fst m = ERRO"
    "xs = [] \<longleftrightarrow> (\<forall>(origem, linha)\<in>set tr.
           origem \<in> set (estados afd) \<and>
           (\<forall>(simbolo, dest)\<in>set linha.
              simbolo \<in> set (alfabeto afd) \<and> dest \<in> set (estados afd)))"
    by blast
  show ?case
  proof (intro exI conjI)
    show "consistencia_transicoes afd (a # tr) (ms, n) =
          (ms @ (?e1 @ ys @ xs), n + length (?e1 @ ys @ xs))"
      using step xs(1) by simp
    show "\<forall>m\<in>set (?e1 @ ys @ xs). fst m = ERRO" using xs(2) ys(2) by auto
    show "(?e1 @ ys @ xs = []) \<longleftrightarrow> (\<forall>(origem, linha)\<in>set (a # tr).
           origem \<in> set (estados afd) \<and>
           (\<forall>(simbolo, dest)\<in>set linha.
              simbolo \<in> set (alfabeto afd) \<and> dest \<in> set (estados afd)))"
      using xs(3) ys(3) unfolding a by auto
  qed
qed

lemma verificar_consistencia_spec:
  "\<exists>xs. verificar_consistencia (afd :: ('q, 's) AFD) ms = (consistente afd, ms @ xs) \<and>
        (\<forall>m\<in>set xs. fst m = ERRO) \<and> (xs = [] \<longleftrightarrow> consistente afd)"
proof -
  let ?e1 = "(if \<not> inicial_em afd (set (estados afd))
              then [(ERRO, InicialForaDosEstados (inicial afd))] else [])
             :: ('q, 's) mensagem list"
  let ?inv = "set (finais afd) - set (estados afd)"
  let ?e2 = "(if ?inv \<noteq> {} then [(ERRO, FinaisForaDosEstados ?inv)] else [])
             :: ('q, 's) mensagem list"
  from consistencia_transicoes_spec [of afd "transicoes afd" "ms @ ?e1 @ ?e2" "length (?e1 @ ?e2)"]
  obtain xs where xs:
    "consistencia_transicoes afd (transicoes afd) (ms @ ?e1 @ ?e2, length (?e1 @ ?e2)) =
       ((ms @ ?e1 @ ?e2) @ xs, length (?e1 @ ?e2) + length xs)"
    "\<forall>m\<in>set xs. fst m = ERRO"
    "xs = [] \<longleftrightarrow> (\<forall>(origem, linha)\<in>set (transicoes afd).
           origem \<in> set (estados afd) \<and>
           (\<forall>(simbolo, dest)\<in>set linha.
              simbolo \<in> set (alfabeto afd) \<and> dest \<in> set (estados afd)))"
    by blast
  have c: "consistente afd \<longleftrightarrow> ?e1 @ ?e2 @ xs = []"
    using xs(3) unfolding consistente_def by auto
  have "verificar_consistencia afd ms =
          (length (?e1 @ ?e2) + length xs = 0, ms @ (?e1 @ ?e2 @ xs))"
    using xs(1) unfolding verificar_consistencia_def
    by (cases "inicial_em afd (set (estados afd))"; cases "?inv = {}") (simp_all add: Let_def)
  moreover have "(length (?e1 @ ?e2) + length xs = 0) = consistente afd"
    using c by auto
  ultimately have "verificar_consistencia afd ms = (consistente afd, ms @ (?e1 @ ?e2 @ xs))"
    by simp
  moreover have "\<forall>m\<in>set (?e1 @ ?e2 @ xs). fst m = ERRO" using xs(2) by auto
  ultimately show ?thesis using c by blast
qed

lemma determinismo_simbolos_spec:
  "\<exists>xs. determinismo_simbolos (afd :: ('q, 's) AFD) q ss (ms, ok) =
          (ms @ xs, ok \<and> xs = []) \<and>
        (\<forall>m\<in>set xs. fst m = ERRO) \<and>
        (xs = [] \<longleftrightarrow> (\<forall>s\<in>set ss. destino afd q s \<noteq> None))"
proof (induction ss arbitrary: ms ok)
  case Nil
  show ?case by simp
next
  case (Cons s ss)
  have eq: "(map_of (transicoes afd) q = None \<or> destino afd q s = None) = (destino afd q s = None)"
    by (auto simp: destino_def)
  let ?e = "(if destino afd q s = None then [(ERRO, TransicaoAusente q s)] else [])
            :: ('q, 's) mensagem list"
  have step: "determinismo_simbolos afd q (s # ss) (ms, ok) =
              determinismo_simbolos afd q ss (ms @ ?e, ok \<and> ?e = [])"
    using eq by simp
  from Cons.IH [of "ms @ ?e" "ok \<and> ?e = []"]
  obtain xs where xs:
    "determinismo_simbolos afd q ss (ms @ ?e, ok \<and> ?e = []) =
       ((ms @ ?e) @ xs, (ok \<and> ?e = []) \<and> xs = [])"
    "\<forall>m\<in>set xs. fst m = ERRO"
    "xs = [] \<longleftrightarrow> (\<forall>s\<in>set ss. destino afd q s \<noteq> None)"
    by blast
  show ?case
  proof (intro exI conjI)
    show "determinismo_simbolos afd q (s # ss) (ms, ok) = (ms @ (?e @ xs), ok \<and> ?e @ xs = [])"
      using step xs(1) by auto
    show "\<forall>m\<in>set (?e @ xs). fst m = ERRO" using xs(2) by auto
    show "(?e @ xs = []) \<longleftrightarrow> (\<forall>s\<in>set (s # ss). destino afd q s \<noteq> None)"
      using xs(3) by auto
  qed
qed

lemma determinismo_estados_spec:
  "\<exists>xs. determinismo_estados afd qs (ms, ok) = (ms @ xs, ok \<and> xs = []) \<and>
        (\<forall>m\<in>set xs. fst m = ERRO) \<and>
        (xs = [] \<longleftrightarrow> (\<forall>q\<in>set qs. \<forall>s\<in>set (alfabeto afd). destino afd q s \<noteq> None))"
proof (induction qs arbitrary: ms ok)
  case Nil
  show ?case by simp
next
  case (Cons q qs)
  from determinismo_simbolos_spec [of afd q "alfabeto afd" ms ok]
  obtain ys where ys:
    "determinismo_simbolos afd q (alfabeto afd) (ms, ok) = (ms @ ys, ok \<and> ys = [])"
    "\<forall>m\<in>set ys. fst m = ERRO"
    "ys = [] \<longleftrightarrow> (\<forall>s\<in>set (alfabeto afd). destino afd q s \<noteq> None)"
    by blast
  from Cons.IH [of "ms @ ys" "ok \<and> ys = []"]
  obtain xs where xs:
    "determinismo_estados afd qs (ms @ ys, ok \<and> ys = []) =
       ((ms @ ys) @ xs, (ok \<and> ys = []) \<and> xs = [])"
    "\<forall>m\<in>set xs. fst m = ERRO"
    "xs = [] \<longleftrightarrow> (\<forall>q\<in>set qs. \<forall>s\<in>set (alfabeto afd). destino afd q s \<noteq> None)"
    by blast
  show ?case
  proof (intro exI conjI)
    show "determinismo_estados afd (q # qs) (ms, ok) = (ms @ (ys @ xs), ok \<and> ys @ xs = [])"
      using ys(1) xs(1) by auto
    show "\<forall>m\<in>set (ys @ xs). fst m = ERRO" using xs(2) ys(2) by auto
    show "(ys @ xs = []) \<longleftrightarrow>
          (\<forall>q\<in>set (q # qs). \<forall>s\<in>set (alfabeto afd). destino afd q s \<noteq> None)"
      using xs(3) ys(3) by auto
  qed
qed

lemma verificar_determinismo_spec:
  "\<exists>xs. verificar_determinismo afd ms = (completo afd, ms @ xs) \<and>
        (\<forall>m\<in>set xs. fst m = ERRO) \<and> (xs = [] \<longleftrightarrow> completo afd)"
proof -
  from determinismo_estados_spec [of afd "estados afd" ms True]
  obtain xs where xs:
    "determinismo_estados afd (estados afd) (ms, True) = (ms @ xs, True \<and> xs = [])"
    "\<forall>m\<in>set xs. fst m = ERRO"
    "xs = [] \<longleftrightarrow> completo afd"
    unfolding completo_def by blast
  then have "verificar_determinismo afd ms = (completo afd, ms @ xs)"
    by (simp add: verificar_determinismo_def)
  with xs show ?thesis by blast
qed


lemma destino_consistente:
  assumes "consistente afd" "destino afd x s = Some d"
  shows "x \<in> set (estados afd) \<and> s \<in> set (alfabeto afd) \<and> d \<in> set (estados afd)"
proof -
  from assms(2) obtain linha where l: "map_of (transicoes afd) x = Some linha" "map_of linha s = Some d"
    by (auto simp: destino_def split: option.splits)
  then have "(x, linha) \<in> set (transicoes afd)" "(s, d) \<in> set linha"
    by (auto dest: map_of_SomeD)
  with assms(1) show ?thesis unfolding consistente_def by fastforce
qed

lemma alcancavel_sse_encontrar:
  assumes "consistente afd"
  shows "alcancavel afd q \<longleftrightarrow> q \<in> set (encontrar_estados_alcancaveis afd)"
proof
  assume "q \<in> set (encontrar_estados_alcancaveis afd)"
  from encontrar_alcancavel [OF this] show "alcancavel afd q"
    unfolding alcancavel_def by blast
next
  assume "alcancavel afd q"
  then obtain q0 w where q0: "inicial afd = Some q0" and w: "executar afd q0 w = Some q"
    unfolding alcancavel_def by blast
  from assms q0 have "q0 \<in> set (estados afd)"
    by (simp add: consistente_def inicial_em_def)
  with q0 have ne: "encontrar_estados_alcancaveis afd \<noteq> []"
    by (auto simp: encontrar_vazio_iff inicial_em_def)
  from encontrar_inicial [OF this] q0 have i: "q0 \<in> set (encontrar_estados_alcancaveis afd)"
    by (simp add: inicial_em_def)
  from w show "q \<in> set (encontrar_estados_alcancaveis afd)"
  proof (induction w arbitrary: q rule: rev_induct)
    case Nil
    with i show ?case by simp
  next
    case (snoc s w)
    from snoc.prems obtain x where x: "executar afd q0 w = Some x" "destino afd x s = Some q"
      by (auto simp: executar_append split: option.splits)
    from snoc.IH [OF x(1)] have "x \<in> set (encontrar_estados_alcancaveis afd)" .
    moreover from destino_consistente [OF assms x(2)]
    have "s \<in> set (alfabeto afd)" "q \<in> set (estados afd)" by simp_all
    ultimately show ?case using x(2) by (blast intro: encontrar_fechado)
  qed
qed

lemma verificar_alcancabilidade_spec:
  "verificar_alcancabilidade afd ms =
     (encontrar_estados_alcancaveis afd,
      ms @ (if set (estados afd) - set (encontrar_estados_alcancaveis afd) \<noteq> {} \<and>
               encontrar_estados_alcancaveis afd \<noteq> []
            then [(AVISO, EstadosInalcancaveis (inicial afd)
                     (set (estados afd) - set (encontrar_estados_alcancaveis afd)))]
            else []))"
proof (cases "encontrar_estados_alcancaveis afd = []")
  case True
  then have "estados afd = [] \<or> \<not> inicial_em afd (set (estados afd))"
    by (simp add: encontrar_vazio_iff)
  with True show ?thesis
    by (auto simp: verificar_alcancabilidade_def)
next
  case False
  then obtain q0 where q0: "inicial afd = Some q0" "q0 \<in> set (estados afd)"
    "encontrar_estados_alcancaveis afd = alcancaveis_while afd [q0] [q0]"
    by (rule encontrar_nao_vazio)
  from False have "estados afd \<noteq> []" "inicial_em afd (set (estados afd))"
    by (simp_all add: encontrar_vazio_iff)
  with q0 False show ?thesis
    unfolding verificar_alcancabilidade_def by (simp add: Let_def del: alcancaveis_while.simps)
qed

lemma validar_afd_spec:
  fixes afd :: "(string, 's) AFD"
  assumes g: "estados afd \<noteq> []" "alfabeto afd \<noteq> []" "\<not> inicial_ausente (inicial afd)"
  shows "\<exists>xs. validar_afd afd =
           (consistente afd \<and> completo afd,
            xs @ (if set (estados afd) - set (encontrar_estados_alcancaveis afd) \<noteq> {} \<and>
                     encontrar_estados_alcancaveis afd \<noteq> []
                  then [(AVISO, EstadosInalcancaveis (inicial afd)
                           (set (estados afd) - set (encontrar_estados_alcancaveis afd)))]
                  else []),
            if inicial_em afd (set (estados afd))
            then Some (encontrar_estados_alcancaveis afd) else None) \<and>
         (\<forall>m\<in>set xs. fst m = ERRO) \<and> (xs = [] \<longleftrightarrow> consistente afd \<and> completo afd)"
proof -
  from verificar_consistencia_spec [of afd "[]"]
  obtain xs where xs: "verificar_consistencia afd [] = (consistente afd, xs)"
    "\<forall>m\<in>set xs. fst m = ERRO" "xs = [] \<longleftrightarrow> consistente afd"
    by auto
  from verificar_determinismo_spec [of afd xs]
  obtain ys where ys: "verificar_determinismo afd xs = (completo afd, xs @ ys)"
    "\<forall>m\<in>set ys. fst m = ERRO" "ys = [] \<longleftrightarrow> completo afd"
    by auto
  let ?ws = "(if set (estados afd) - set (encontrar_estados_alcancaveis afd) \<noteq> {} \<and>
                     encontrar_estados_alcancaveis afd \<noteq> []
                  then [(AVISO, EstadosInalcancaveis (inicial afd)
                           (set (estados afd) - set (encontrar_estados_alcancaveis afd)))]
                  else []) :: (string, 's) mensagem list"
  have v: "validar_afd afd =
        (consistente afd \<and> completo afd, (xs @ ys) @ ?ws,
         if inicial_em afd (set (estados afd))
         then Some (encontrar_estados_alcancaveis afd) else None)"
  proof (cases "inicial_em afd (set (estados afd))")
    case True
    with g(1) have ne: "encontrar_estados_alcancaveis afd \<noteq> []"
      by (simp add: encontrar_vazio_iff)
    show ?thesis
      unfolding validar_afd_def
      using g xs(1) ys(1) True ne
      by (simp add: Let_def verificar_alcancabilidade_spec)
  next
    case False
    with g(1) have "encontrar_estados_alcancaveis afd = []"
      by (simp add: encontrar_vazio_iff)
    then show ?thesis
      unfolding validar_afd_def
      using g xs(1) ys(1) False
      by (simp add: Let_def)
  qed
  show ?thesis
  proof (intro exI conjI)
    show "validar_afd afd =
        (consistente afd \<and> completo afd, (xs @ ys) @ ?ws,
         if inicial_em afd (set (estados afd))
         then Some (encontrar_estados_alcancaveis afd) else None)" by (rule v)
    show "\<forall>m\<in>set (xs @ ys). fst m = ERRO" using xs(2) ys(2) by auto
    show "(xs @ ys = []) \<longleftrightarrow> consistente afd \<and> completo afd" using xs(3) ys(3) by simp
  qed
qed

text \<open>
  C6 as stated fails on the guard of \<^verbatim>\<open>validar_afd\<close>: the automaton \<open>afd_alfabeto_vazio\<close>
  is consistent and complete (it has no symbol, so no transition is missing) and its state
  \<^verbatim>\<open>q1\<close> is unreachable, yet the validator returns invalid, with the single error of the
  guard and no warning.
\<close>

theorem validar_afd_inalcancavel_counterexample:
  "consistente afd_alfabeto_vazio \<and> completo afd_alfabeto_vazio \<and>
   ''q1'' \<in> set (estados afd_alfabeto_vazio) \<and> \<not> alcancavel afd_alfabeto_vazio ''q1'' \<and>
   \<not> fst (validar_afd afd_alfabeto_vazio) \<and>
   validar_afd afd_alfabeto_vazio = (False, [(ERRO, ObjetoVazio)], None)"
proof -
  have c: "consistente afd_alfabeto_vazio" by code_simp
  have d: "completo afd_alfabeto_vazio" by code_simp
  have "''q1'' \<notin> set (encontrar_estados_alcancaveis afd_alfabeto_vazio)" by code_simp
  then have u: "\<not> alcancavel afd_alfabeto_vazio ''q1''"
    by (simp add: alcancavel_sse_encontrar [OF c])
  have e: "''q1'' \<in> set (estados afd_alfabeto_vazio)" by (simp add: afd_alfabeto_vazio_def)
  have v: "validar_afd afd_alfabeto_vazio = (False, [(ERRO, ObjetoVazio)], None)"
    by (simp add: validar_afd_def afd_alfabeto_vazio_def)
  from c d u e v show ?thesis by simp
qed

text \<open>
  C6, amended. For every input AFD, \<^verbatim>\<open>validar_afd\<close> returns \<^verbatim>\<open>is_valido = True\<close> if and only
  if none of the diagnostics it returns is an error. The result is valid exactly when the
  guard passes (states and alphabet not empty, initial state not missing) and the
  automaton is consistent and complete, whatever its reachable states are. In particular a
  consistent and complete automaton with a non-empty alphabet and an initial state that is
  not missing, and with a declared state that no word reaches from the initial state, is
  valid, and the list of diagnostics holds the warning that names the unreachable states.
\<close>

theorem validar_afd_valido_sse_sem_erro:
  fixes afd :: "(string, 's) AFD"
  shows
  "(fst (validar_afd afd) \<longleftrightarrow> (\<forall>m\<in>set (fst (snd (validar_afd afd))). fst m \<noteq> ERRO)) \<and>
   (fst (validar_afd afd) \<longleftrightarrow>
      estados afd \<noteq> [] \<and> alfabeto afd \<noteq> [] \<and> \<not> inicial_ausente (inicial afd) \<and>
      consistente afd \<and> completo afd) \<and>
   (alfabeto afd \<noteq> [] \<and> \<not> inicial_ausente (inicial afd) \<and>
    consistente afd \<and> completo afd \<and> (\<exists>q\<in>set (estados afd). \<not> alcancavel afd q) \<longrightarrow>
      fst (validar_afd afd) \<and>
      (AVISO, EstadosInalcancaveis (inicial afd) {q \<in> set (estados afd). \<not> alcancavel afd q})
        \<in> set (fst (snd (validar_afd afd))))"
proof (cases "estados afd = [] \<or> alfabeto afd = [] \<or> inicial_ausente (inicial afd)")
  case True
  then have "validar_afd afd = (False, [(ERRO, ObjetoVazio)], None)"
    by (simp add: validar_afd_def)
  with True show ?thesis by auto
next
  case False
  then have g: "estados afd \<noteq> []" "alfabeto afd \<noteq> []" "\<not> inicial_ausente (inicial afd)"
    by simp_all
  let ?R = "encontrar_estados_alcancaveis afd"
  let ?ws = "(if set (estados afd) - set ?R \<noteq> {} \<and> ?R \<noteq> []
              then [(AVISO, EstadosInalcancaveis (inicial afd) (set (estados afd) - set ?R))]
              else []) :: (string, 's) mensagem list"
  from validar_afd_spec [OF g]
  obtain xs where xs:
    "validar_afd afd = (consistente afd \<and> completo afd, xs @ ?ws,
        if inicial_em afd (set (estados afd)) then Some ?R else None)"
    "\<forall>m\<in>set xs. fst m = ERRO" "xs = [] \<longleftrightarrow> consistente afd \<and> completo afd"
    by blast
  have 1: "fst (validar_afd afd) \<longleftrightarrow> (\<forall>m\<in>set (fst (snd (validar_afd afd))). fst m \<noteq> ERRO)"
  proof (cases "xs = []")
    case True
    with xs show ?thesis by auto
  next
    case False
    then obtain m where "m \<in> set xs" by (cases xs) auto
    with xs(2) have "m \<in> set (xs @ ?ws)" "fst m = ERRO" by auto
    with xs(1,3) False show ?thesis by auto
  qed
  have 2: "fst (validar_afd afd) \<longleftrightarrow>
      estados afd \<noteq> [] \<and> alfabeto afd \<noteq> [] \<and> \<not> inicial_ausente (inicial afd) \<and>
      consistente afd \<and> completo afd"
    using xs(1) g by simp
  have 3: "fst (validar_afd afd) \<and>
      (AVISO, EstadosInalcancaveis (inicial afd) {q \<in> set (estados afd). \<not> alcancavel afd q})
        \<in> set (fst (snd (validar_afd afd)))"
    if h: "consistente afd" "completo afd" "\<exists>q\<in>set (estados afd). \<not> alcancavel afd q"
  proof -
    have eq: "{q \<in> set (estados afd). \<not> alcancavel afd q} = set (estados afd) - set ?R"
      using alcancavel_sse_encontrar [OF h(1)] by auto
    from h(1) g(1) have "?R \<noteq> []"
      by (simp add: encontrar_vazio_iff consistente_def)
    moreover from h(3) eq have "set (estados afd) - set ?R \<noteq> {}" by auto
    ultimately show ?thesis using xs(1) h(1,2) eq by simp
  qed
  from 1 2 3 show ?thesis by blast
qed


theorem validar_afd_valido_sse_sem_erro_witness:
  "alfabeto cenario_A \<noteq> [] \<and>
   \<not> inicial_ausente (inicial cenario_A) \<and> consistente cenario_A \<and> completo cenario_A \<and>
   \<not> alcancavel cenario_A ''D'' \<and>
   fst (validar_afd cenario_A) \<and>
   (AVISO, EstadosInalcancaveis (inicial cenario_A)
             {q \<in> set (estados cenario_A). \<not> alcancavel cenario_A q})
     \<in> set (fst (snd (validar_afd cenario_A)))"
proof -
  have g: "alfabeto cenario_A \<noteq> [] \<and> \<not> inicial_ausente (inicial cenario_A)"
    by (simp add: cenario_A_def inicial_ausente_def)
  have c: "consistente cenario_A" by code_simp
  have d: "completo cenario_A" by code_simp
  have "''D'' \<notin> set (encontrar_estados_alcancaveis cenario_A)" by code_simp
  then have u: "\<not> alcancavel cenario_A ''D''"
    by (simp add: alcancavel_sse_encontrar [OF c])
  have e: "''D'' \<in> set (estados cenario_A)" by (simp add: cenario_A_def)
  from u e have "\<exists>q\<in>set (estados cenario_A). \<not> alcancavel cenario_A q" by blast
  with g c d validar_afd_valido_sse_sem_erro [of cenario_A] u show ?thesis by blast
qed

section \<open>Properties of the disjoint sets\<close>

lemma raiz_det: "raiz m x r \<Longrightarrow> raiz m x r' \<Longrightarrow> r = r'"
proof (induction arbitrary: r' rule: raiz.induct)
  case (raiz_propria x)
  note h = raiz_propria.hyps
  from raiz_propria.prems show ?case
  proof (cases rule: raiz.cases)
    case raiz_propria
    then show ?thesis by simp
  next
    case (raiz_passo p)
    with h show ?thesis by simp
  qed
next
  case (raiz_passo x p r)
  note h = raiz_passo.hyps and ih = raiz_passo.IH
  from raiz_passo.prems show ?case
  proof (cases rule: raiz.cases)
    case raiz_propria
    with h show ?thesis by simp
  next
    case (raiz_passo p')
    with h have "p' = p" by simp
    with raiz_passo(3) have "raiz m p r'" by simp
    then show ?thesis by (rule ih)
  qed
qed

lemma raiz_fixa: "raiz m x r \<Longrightarrow> m r = Some r"
  by (induction rule: raiz.induct) auto

lemma raiz_compressao:
  assumes xr: "raiz m x r"
  shows "raiz m y r' \<Longrightarrow> raiz (m(x \<mapsto> r)) y r'"
proof (induction rule: raiz.induct)
  case (raiz_propria y)
  show ?case
  proof (cases "y = x")
    case True
    from raiz_propria have "raiz m x x" unfolding True by (rule raiz.raiz_propria)
    with xr have "r = x" by (rule raiz_det)
    then have "(m(x \<mapsto> r)) x = Some x" by simp
    then show ?thesis unfolding True by (rule raiz.raiz_propria)
  next
    case False
    with raiz_propria have "(m(x \<mapsto> r)) y = Some y" by simp
    then show ?thesis by (rule raiz.raiz_propria)
  qed
next
  case (raiz_passo y p r')
  show ?case
  proof (cases "y = x")
    case True
    have "raiz m x r'" using raiz_passo.hyps unfolding True by (rule raiz.raiz_passo)
    then have rr: "r' = r" using xr by (rule raiz_det)
    have fr: "m r = Some r" using xr by (rule raiz_fixa)
    have "r \<noteq> x"
    proof
      assume "r = x"
      with fr have "m x = Some x" by simp
      with raiz_passo.hyps(1,2) True show False by simp
    qed
    then have "(m(x \<mapsto> r)) r = Some r" using fr by simp
    then have "raiz (m(x \<mapsto> r)) r r" by (rule raiz.raiz_propria)
    moreover have "(m(x \<mapsto> r)) x = Some r" by simp
    ultimately have "raiz (m(x \<mapsto> r)) x r" using \<open>r \<noteq> x\<close>
      by (rule raiz.raiz_passo [rotated 2])
    then show ?thesis unfolding True rr .
  next
    case False
    then have "(m(x \<mapsto> r)) y = Some p" using raiz_passo.hyps(1) by simp
    then show ?thesis using raiz_passo.hyps(2) raiz_passo.IH by (rule raiz.raiz_passo)
  qed
qed

lemma raiz_ligacao:
  assumes a: "m ra = Some ra" and b: "m rb = Some rb" and ne: "ra \<noteq> rb"
  shows "raiz m y r \<Longrightarrow> raiz (m(ra \<mapsto> rb)) y (if r = ra then rb else r)"
proof (induction rule: raiz.induct)
  case (raiz_propria y)
  show ?case
  proof (cases "y = ra")
    case True
    have "(m(ra \<mapsto> rb)) rb = Some rb" using b ne by simp
    then have "raiz (m(ra \<mapsto> rb)) rb rb" by (rule raiz.raiz_propria)
    moreover have "(m(ra \<mapsto> rb)) ra = Some rb" by simp
    ultimately have "raiz (m(ra \<mapsto> rb)) ra rb" using ne [symmetric]
      by (rule raiz.raiz_passo [rotated 2])
    then show ?thesis unfolding True by (simp only: simp_thms if_True)
  next
    case False
    with raiz_propria have "(m(ra \<mapsto> rb)) y = Some y" by simp
    then have "raiz (m(ra \<mapsto> rb)) y y" by (rule raiz.raiz_propria)
    then show ?thesis using False by (simp only: if_False)
  qed
next
  case (raiz_passo y p r)
  have "y \<noteq> ra" using a raiz_passo.hyps(1,2) by auto
  then have "(m(ra \<mapsto> rb)) y = Some p" using raiz_passo.hyps(1) by simp
  then show ?case using raiz_passo.hyps(2) raiz_passo.IH by (rule raiz.raiz_passo)
qed



lemma dsu_find_raiz:
  "raiz m x r \<Longrightarrow>
   \<exists>m'. dsu_find m x = Some (r, m') \<and> (\<forall>y r'. raiz m y r' \<longrightarrow> raiz m' y r')"
proof (induction rule: raiz.induct)
  case (raiz_propria x)
  then have "dsu_find m x = Some (x, m)" by (subst dsu_find.simps) simp
  then show ?case by blast
next
  case (raiz_passo x p r)
  then obtain m' where m': "dsu_find m p = Some (r, m')"
    and pres: "\<forall>y r'. raiz m y r' \<longrightarrow> raiz m' y r'" by blast
  have "dsu_find m x = Some (r, m'(x \<mapsto> r))"
    using raiz_passo.hyps(1,2) m' by (subst dsu_find.simps) simp
  moreover have "raiz m x r" using raiz_passo.hyps by (rule raiz.raiz_passo)
  then have xr: "raiz m' x r" using pres by blast
  have "\<forall>y r'. raiz m y r' \<longrightarrow> raiz (m'(x \<mapsto> r)) y r'"
  proof (intro allI impI)
    fix y r'
    assume "raiz m y r'"
    with pres have "raiz m' y r'" by simp
    with xr show "raiz (m'(x \<mapsto> r)) y r'" by (rule raiz_compressao)
  qed
  ultimately show ?case by (intro exI conjI)
qed

lemma mesma_raiz_sym: "mesma_raiz m x y \<Longrightarrow> mesma_raiz m y x"
  unfolding mesma_raiz_def by blast

lemma mesma_raiz_trans: "mesma_raiz m x y \<Longrightarrow> mesma_raiz m y z \<Longrightarrow> mesma_raiz m x z"
proof -
  assume "mesma_raiz m x y" "mesma_raiz m y z"
  then obtain r r' where r: "raiz m x r" "raiz m y r" and r': "raiz m y r'" "raiz m z r'"
    unfolding mesma_raiz_def by blast
  from r(2) r'(1) have "r = r'" by (rule raiz_det)
  with r r' show ?thesis unfolding mesma_raiz_def by blast
qed

lemma mesma_raiz_refl: "dsu_ok R m \<Longrightarrow> x \<in> R \<Longrightarrow> mesma_raiz m x x"
  unfolding mesma_raiz_def dsu_ok_def by blast

lemma DSU_init_raiz: "x \<in> set items \<Longrightarrow> raiz (DSU_init items) x x"
proof (rule raiz.raiz_propria)
  assume "x \<in> set items"
  then show "DSU_init items x = Some x"
    unfolding DSU_init_def by (induction items) auto
qed

lemma DSU_init_ok: "dsu_ok (set items) (DSU_init items)"
  unfolding dsu_ok_def
proof
  fix x
  assume x: "x \<in> set items"
  then have "raiz (DSU_init items) x x" by (rule DSU_init_raiz)
  with x show "\<exists>r\<in>set items. raiz (DSU_init items) x r" by (rule bexI [rotated])
qed

lemma DSU_init_valor: "DSU_init items z = Some w \<Longrightarrow> w = z"
  unfolding DSU_init_def by (induction items) (simp_all split: if_splits)

lemma DSU_init_raiz_unica: "raiz (DSU_init items) z w \<Longrightarrow> w = z"
proof (induction rule: raiz.induct)
  case (raiz_propria x)
  show ?case by simp
next
  case (raiz_passo x p r)
  from raiz_passo.hyps(1) have "p = x" by (rule DSU_init_valor)
  with raiz_passo.hyps(2) show ?case by simp
qed

lemma DSU_init_mesma_raiz:
  assumes "mesma_raiz (DSU_init items) x y"
  shows "x = y"
proof -
  from assms obtain r where r: "raiz (DSU_init items) x r" "raiz (DSU_init items) y r"
    unfolding mesma_raiz_def by blast
  from r(1) have "r = x" by (rule DSU_init_raiz_unica)
  moreover from r(2) have "r = y" by (rule DSU_init_raiz_unica)
  ultimately show ?thesis by simp
qed

lemma dsu_union_raiz:
  assumes a: "raiz m a ra" and b: "raiz m b rb"
  shows "\<exists>m'. dsu_union m a b = Some m' \<and>
              (\<forall>y r. raiz m y r \<longrightarrow> raiz m' y (if r = ra then rb else r))"
proof -
  from dsu_find_raiz [OF a] obtain m1 where m1: "dsu_find m a = Some (ra, m1)"
    and p1: "\<forall>y r'. raiz m y r' \<longrightarrow> raiz m1 y r'" by blast
  from b p1 have b1: "raiz m1 b rb" by simp
  from dsu_find_raiz [OF b1] obtain m2 where m2: "dsu_find m1 b = Some (rb, m2)"
    and p2: "\<forall>y r'. raiz m1 y r' \<longrightarrow> raiz m2 y r'" by blast
  have p12: "raiz m y r \<Longrightarrow> raiz m2 y r" for y r using p1 p2 by simp
  show ?thesis
  proof (cases "ra = rb")
    case True
    then have "dsu_union m a b = Some m2" using m1 m2 by (simp add: dsu_union_def)
    moreover have "\<forall>y r. raiz m y r \<longrightarrow> raiz m2 y (if r = ra then rb else r)"
      using p12 True by simp
    ultimately show ?thesis by (intro exI conjI)
  next
    case False
    then have u: "dsu_union m a b = Some (m2(ra \<mapsto> rb))" using m1 m2
      by (simp add: dsu_union_def)
    have fa: "m2 ra = Some ra" using p12 [OF a] by (rule raiz_fixa)
    have fb: "m2 rb = Some rb" using p12 [OF b] by (rule raiz_fixa)
    have "\<forall>y r. raiz m y r \<longrightarrow> raiz (m2(ra \<mapsto> rb)) y (if r = ra then rb else r)"
    proof (intro allI impI)
      fix y r
      assume "raiz m y r"
      then have "raiz m2 y r" by (rule p12)
      with fa fb False show "raiz (m2(ra \<mapsto> rb)) y (if r = ra then rb else r)"
        by (rule raiz_ligacao)
    qed
    with u show ?thesis by (intro exI conjI)
  qed
qed


lemma dsu_union_inv:
  assumes ok: "dsu_ok R m" and a: "a \<in> R" and b: "b \<in> R"
  shows "\<exists>m'. dsu_union m a b = Some m' \<and> dsu_ok R m' \<and> mesma_raiz m' a b \<and>
     (\<forall>x y. mesma_raiz m x y \<longrightarrow> mesma_raiz m' x y) \<and>
     (\<forall>x\<in>R. \<forall>y\<in>R. mesma_raiz m' x y \<longrightarrow>
        mesma_raiz m x y \<or> (mesma_raiz m x a \<and> mesma_raiz m y b) \<or>
        (mesma_raiz m x b \<and> mesma_raiz m y a))"
proof -
  from ok a obtain ra where ra: "ra \<in> R" "raiz m a ra" unfolding dsu_ok_def by blast
  from ok b obtain rb where rb: "rb \<in> R" "raiz m b rb" unfolding dsu_ok_def by blast
  define f where "f = (\<lambda>r. if r = ra then rb else r)"
  from dsu_union_raiz [OF ra(2) rb(2)] obtain m' where u: "dsu_union m a b = Some m'"
    and pr: "\<forall>y r. raiz m y r \<longrightarrow> raiz m' y (if r = ra then rb else r)" by blast
  have pf: "raiz m y r \<Longrightarrow> raiz m' y (f r)" for y r using pr unfolding f_def by simp
  have fR: "r \<in> R \<Longrightarrow> f r \<in> R" for r using rb(1) unfolding f_def by simp
  have ok': "dsu_ok R m'"
    unfolding dsu_ok_def
  proof
    fix x assume "x \<in> R"
    with ok obtain r where r: "r \<in> R" "raiz m x r" unfolding dsu_ok_def by blast
    from r(2) have "raiz m' x (f r)" by (rule pf)
    with fR [OF r(1)] show "\<exists>r\<in>R. raiz m' x r" by (rule bexI [rotated])
  qed
  have fa: "f ra = rb" and fb: "f rb = rb" unfolding f_def by simp_all
  have ab: "mesma_raiz m' a b"
    unfolding mesma_raiz_def using pf [OF ra(2)] pf [OF rb(2)] fa fb by auto
  have pres: "\<forall>x y. mesma_raiz m x y \<longrightarrow> mesma_raiz m' x y"
  proof (intro allI impI)
    fix x y assume "mesma_raiz m x y"
    then obtain r where "raiz m x r" "raiz m y r" unfolding mesma_raiz_def by blast
    then have "raiz m' x (f r)" "raiz m' y (f r)" by (simp_all add: pf)
    then show "mesma_raiz m' x y" unfolding mesma_raiz_def by (rule_tac x = "f r" in exI) simp
  qed
  have volta: "\<forall>x\<in>R. \<forall>y\<in>R. mesma_raiz m' x y \<longrightarrow>
        mesma_raiz m x y \<or> (mesma_raiz m x a \<and> mesma_raiz m y b) \<or>
        (mesma_raiz m x b \<and> mesma_raiz m y a)"
  proof (intro ballI impI)
    fix x y assume x: "x \<in> R" and y: "y \<in> R" and xy: "mesma_raiz m' x y"
    from ok x obtain rx where rx: "raiz m x rx" unfolding dsu_ok_def by blast
    from ok y obtain ry where ry: "raiz m y ry" unfolding dsu_ok_def by blast
    from xy obtain r where r: "raiz m' x r" "raiz m' y r" unfolding mesma_raiz_def by blast
    have "f rx = r" using pf [OF rx] r(1) by (rule raiz_det)
    moreover have "f ry = r" using pf [OF ry] r(2) by (rule raiz_det)
    ultimately have e: "f rx = f ry" by simp
    show "mesma_raiz m x y \<or> (mesma_raiz m x a \<and> mesma_raiz m y b) \<or>
        (mesma_raiz m x b \<and> mesma_raiz m y a)"
    proof (cases "rx = ry")
      case True
      with rx ry have "mesma_raiz m x y" unfolding mesma_raiz_def by (rule_tac x = ry in exI) simp
      then show ?thesis by simp
    next
      case False
      show ?thesis
      proof (cases "rx = ra")
        case True
        with e False have "ry = rb" unfolding f_def by (simp split: if_splits)
        with True rx ry ra(2) rb(2) have "mesma_raiz m x a" "mesma_raiz m y b"
          unfolding mesma_raiz_def by auto
        then show ?thesis by simp
      next
        case nra: False
        with e False have "ry = ra" "rx = rb" unfolding f_def by (simp_all split: if_splits)
        with rx ry ra(2) rb(2) have "mesma_raiz m x b" "mesma_raiz m y a"
          unfolding mesma_raiz_def by auto
        then show ?thesis by simp
      qed
    qed
  qed
  from u ok' ab pres volta show ?thesis by (intro exI conjI)
qed

lemma unir_pares_inv:
  assumes eqs: "\<forall>x y. eq x y \<longrightarrow> eq y x" and eqt: "\<forall>x y z. eq x y \<longrightarrow> eq y z \<longrightarrow> eq x z"
  shows "dsu_ok R m \<Longrightarrow> (\<forall>x\<in>R. \<forall>y\<in>R. mesma_raiz m x y \<longrightarrow> eq x y) \<Longrightarrow>
     (\<forall>(p, q)\<in>set ps. p \<in> R \<and> q \<in> R \<and> ({p, q} \<notin> M \<longrightarrow> eq p q)) \<Longrightarrow>
     \<exists>m'. unir_pares M ps m = Some m' \<and> dsu_ok R m' \<and>
          (\<forall>x\<in>R. \<forall>y\<in>R. mesma_raiz m' x y \<longrightarrow> eq x y) \<and>
          (\<forall>x y. mesma_raiz m x y \<longrightarrow> mesma_raiz m' x y) \<and>
          (\<forall>(p, q)\<in>set ps. {p, q} \<notin> M \<longrightarrow> mesma_raiz m' p q)"
proof (induction ps arbitrary: m)
  case Nil
  then show ?case by simp
next
  case (Cons pq ps)
  obtain p q where pq: "pq = (p, q)" by (cases pq)
  from Cons.prems(3) pq have pR: "p \<in> R" and qR: "q \<in> R"
    and pqe: "{p, q} \<notin> M \<longrightarrow> eq p q"
    and rest: "\<forall>(p, q)\<in>set ps. p \<in> R \<and> q \<in> R \<and> ({p, q} \<notin> M \<longrightarrow> eq p q)"
    by simp_all
  show ?case
  proof (cases "{p, q} \<in> M")
    case True
    from Cons.IH [OF Cons.prems(1,2) rest] obtain m' where m':
      "unir_pares M ps m = Some m'" "dsu_ok R m'"
      "\<forall>x\<in>R. \<forall>y\<in>R. mesma_raiz m' x y \<longrightarrow> eq x y"
      "\<forall>x y. mesma_raiz m x y \<longrightarrow> mesma_raiz m' x y"
      "\<forall>(p, q)\<in>set ps. {p, q} \<notin> M \<longrightarrow> mesma_raiz m' p q"
      by blast
    have 1: "unir_pares M (pq # ps) m = Some m'" using True m'(1) pq by simp
    have 5: "\<forall>(p, q)\<in>set (pq # ps). {p, q} \<notin> M \<longrightarrow> mesma_raiz m' p q"
      using True m'(5) pq by simp
    from 1 m'(2,3,4) 5 show ?thesis by (intro exI conjI)
  next
    case False
    with pqe have e: "eq p q" by simp
    from dsu_union_inv [OF Cons.prems(1) pR qR] obtain m1 where m1:
      "dsu_union m p q = Some m1" "dsu_ok R m1" "mesma_raiz m1 p q"
      "\<forall>x y. mesma_raiz m x y \<longrightarrow> mesma_raiz m1 x y"
      "\<forall>x\<in>R. \<forall>y\<in>R. mesma_raiz m1 x y \<longrightarrow>
        mesma_raiz m x y \<or> (mesma_raiz m x p \<and> mesma_raiz m y q) \<or>
        (mesma_raiz m x q \<and> mesma_raiz m y p)"
      by blast
    have inv1: "\<forall>x\<in>R. \<forall>y\<in>R. mesma_raiz m1 x y \<longrightarrow> eq x y"
    proof (intro ballI impI)
      fix x y assume x: "x \<in> R" and y: "y \<in> R" and xy: "mesma_raiz m1 x y"
      from m1(5) x y xy
      consider "mesma_raiz m x y" | "mesma_raiz m x p" "mesma_raiz m y q"
        | "mesma_raiz m x q" "mesma_raiz m y p" by blast
      then show "eq x y"
      proof cases
        case 1
        with Cons.prems(2) x y show ?thesis by simp
      next
        case 2
        with Cons.prems(2) x y pR qR have "eq x p" "eq y q" by simp_all
        with e eqs eqt show ?thesis by blast
      next
        case 3
        with Cons.prems(2) x y pR qR have "eq x q" "eq y p" by simp_all
        with e eqs eqt show ?thesis by blast
      qed
    qed
    from Cons.IH [OF m1(2) inv1 rest] obtain m' where m':
      "unir_pares M ps m1 = Some m'" "dsu_ok R m'"
      "\<forall>x\<in>R. \<forall>y\<in>R. mesma_raiz m' x y \<longrightarrow> eq x y"
      "\<forall>x y. mesma_raiz m1 x y \<longrightarrow> mesma_raiz m' x y"
      "\<forall>(p, q)\<in>set ps. {p, q} \<notin> M \<longrightarrow> mesma_raiz m' p q"
      by blast
    have 1: "unir_pares M (pq # ps) m = Some m'" using False m1(1) m'(1) pq by simp
    have 4: "\<forall>x y. mesma_raiz m x y \<longrightarrow> mesma_raiz m' x y" using m1(4) m'(4) by simp
    have "mesma_raiz m' p q" using m1(3) m'(4) by simp
    then have 5: "\<forall>(p, q)\<in>set (pq # ps). {p, q} \<notin> M \<longrightarrow> mesma_raiz m' p q"
      using m'(5) pq by simp
    from 1 m'(2,3) 4 5 show ?thesis by (intro exI conjI)
  qed
qed


lemma raiz_preservada:
  assumes ok: "dsu_ok R m" and pr: "\<forall>y r. raiz m y r \<longrightarrow> raiz m' y r" and x: "x \<in> R"
  shows "raiz m' x r \<longleftrightarrow> raiz m x r"
proof
  assume "raiz m x r" with pr show "raiz m' x r" by simp
next
  assume a: "raiz m' x r"
  from ok x obtain r0 where r0: "raiz m x r0" unfolding dsu_ok_def by blast
  with pr have "raiz m' x r0" by simp
  then have "r0 = r" using a by (rule raiz_det)
  with r0 show "raiz m x r" by simp
qed

lemma dsu_ok_preservado:
  assumes ok: "dsu_ok R m" and pr: "\<forall>y r. raiz m y r \<longrightarrow> raiz m' y r"
  shows "dsu_ok R m'"
  unfolding dsu_ok_def
proof
  fix x assume "x \<in> R"
  with ok obtain r where r: "r \<in> R" "raiz m x r" unfolding dsu_ok_def by blast
  from r(2) pr have "raiz m' x r" by simp
  with r(1) show "\<exists>r\<in>R. raiz m' x r" by (rule bexI [rotated])
qed

lemma agrupar_spec:
  "dsu_ok R m \<Longrightarrow> set xs \<subseteq> R \<Longrightarrow>
   \<exists>m' ec'. agrupar xs (m, ec) = Some (m', ec') \<and>
     (\<forall>y r. raiz m y r \<longrightarrow> raiz m' y r) \<and>
     (\<forall>r. map_of ec' r =
        (if \<exists>x\<in>set xs. raiz m x r
         then Some ((case map_of ec r of None \<Rightarrow> {} | Some g \<Rightarrow> g) \<union> {x \<in> set xs. raiz m x r})
         else map_of ec r)) \<and>
     (distinct (map fst ec) \<longrightarrow> distinct (map fst ec'))"
proof (induction xs arbitrary: m ec)
  case Nil
  show ?case by simp
next
  case (Cons x xs)
  from Cons.prems have xR: "x \<in> R" and xsR: "set xs \<subseteq> R" by simp_all
  from Cons.prems(1) xR obtain r0 where r0: "raiz m x r0" unfolding dsu_ok_def by blast
  from dsu_find_raiz [OF r0] obtain m1 where m1: "dsu_find m x = Some (r0, m1)"
    and p1: "\<forall>y r'. raiz m y r' \<longrightarrow> raiz m1 y r'" by blast
  have ok1: "dsu_ok R m1" using Cons.prems(1) p1 by (rule dsu_ok_preservado)
  define old where "old = (case map_of ec r0 of None \<Rightarrow> {} | Some g \<Rightarrow> g)"
  define ec1 where "ec1 = AList.update r0 (insert x old) ec"
  have mec1: "map_of ec1 = (map_of ec)(r0 \<mapsto> insert x old)"
    unfolding ec1_def by (rule update_conv')
  from Cons.IH [OF ok1 xsR, of ec1] obtain m' ec' where r:
    "agrupar xs (m1, ec1) = Some (m', ec')"
    "\<forall>y r. raiz m1 y r \<longrightarrow> raiz m' y r"
    "\<forall>r. map_of ec' r =
        (if \<exists>x\<in>set xs. raiz m1 x r
         then Some ((case map_of ec1 r of None \<Rightarrow> {} | Some g \<Rightarrow> g) \<union> {x \<in> set xs. raiz m1 x r})
         else map_of ec1 r)"
    "distinct (map fst ec1) \<longrightarrow> distinct (map fst ec')"
    by blast
  have eqv: "y \<in> set xs \<Longrightarrow> raiz m1 y r \<longleftrightarrow> raiz m y r" for y r
    using raiz_preservada [OF Cons.prems(1) p1] xsR by blast
  have s1: "{y \<in> set xs. raiz m1 y r} = {y \<in> set xs. raiz m y r}" for r
    using eqv by blast
  have e1: "(\<exists>y\<in>set xs. raiz m1 y r) = (\<exists>y\<in>set xs. raiz m y r)" for r
    using eqv by blast
  have 1: "agrupar (x # xs) (m, ec) = Some (m', ec')"
    using m1 r(1) unfolding ec1_def old_def by simp
  have 2: "\<forall>y r. raiz m y r \<longrightarrow> raiz m' y r" using p1 r(2) by simp
  have 3: "\<forall>r. map_of ec' r =
        (if \<exists>y\<in>set (x # xs). raiz m y r
         then Some ((case map_of ec r of None \<Rightarrow> {} | Some g \<Rightarrow> g) \<union>
                    {y \<in> set (x # xs). raiz m y r})
         else map_of ec r)"
  proof
    fix r
    show "map_of ec' r =
        (if \<exists>y\<in>set (x # xs). raiz m y r
         then Some ((case map_of ec r of None \<Rightarrow> {} | Some g \<Rightarrow> g) \<union>
                    {y \<in> set (x # xs). raiz m y r})
         else map_of ec r)"
    proof (cases "r = r0")
      case True
      have a: "{y \<in> set (x # xs). raiz m y r0} = insert x {y \<in> set xs. raiz m y r0}"
        using r0 by auto
      have "map_of ec' r0 = Some (insert x old \<union> {y \<in> set xs. raiz m y r0})"
      proof (cases "\<exists>y\<in>set xs. raiz m y r0")
        case True
        then show ?thesis
          using r(3) [rule_format, of r0] mec1 s1 [of r0] e1 [of r0] by simp
      next
        case False
        have mm: "map_of ec' r0 = Some (insert x old)"
          using False r(3) [rule_format, of r0] mec1 e1 [of r0] by simp
        have emp: "insert x old \<union> {y \<in> set xs. raiz m y r0} = insert x old"
          using False by blast
        show ?thesis unfolding emp by (rule mm)
      qed
      moreover have "\<exists>y\<in>set (x # xs). raiz m y r0" using r0 by simp
      ultimately show ?thesis unfolding True old_def using a by simp
    next
      case False
      have nx: "\<not> raiz m x r" using r0 False by (auto dest: raiz_det)
      then have a: "{y \<in> set (x # xs). raiz m y r} = {y \<in> set xs. raiz m y r}" by auto
      have b: "(\<exists>y\<in>set (x # xs). raiz m y r) = (\<exists>y\<in>set xs. raiz m y r)" using nx by simp
      have c: "map_of ec1 r = map_of ec r" using mec1 False by simp
      show ?thesis using r(3) [rule_format, of r] unfolding a b c s1 e1 by simp
    qed
  qed
  have 4: "distinct (map fst ec) \<longrightarrow> distinct (map fst ec')"
    using r(4) unfolding ec1_def by (simp add: distinct_update)
  from 1 2 3 4 show ?case by (intro exI conjI)
qed

lemma classe_raiz:
  assumes "raiz m x r"
  shows "classe m R x = {y \<in> R. raiz m y r}"
proof -
  have "mesma_raiz m x y \<longleftrightarrow> raiz m y r" for y
  proof
    assume "mesma_raiz m x y"
    then obtain r' where r': "raiz m x r'" "raiz m y r'" unfolding mesma_raiz_def by blast
    from assms r'(1) have "r = r'" by (rule raiz_det)
    with r'(2) show "raiz m y r" by simp
  next
    assume "raiz m y r"
    with assms show "mesma_raiz m x y" unfolding mesma_raiz_def by (rule_tac x = r in exI) simp
  qed
  then show ?thesis unfolding classe_def by simp
qed

lemma agrupar_classes:
  assumes ok: "dsu_ok (set alc) m"
  shows "\<exists>m' ec'. agrupar alc (m, []) = Some (m', ec') \<and>
           set (map snd ec') = classe m (set alc) ` set alc"
proof -
  let ?R = "set alc"
  from agrupar_spec [OF ok subset_refl, of "[]"] obtain m' ec' where r:
    "agrupar alc (m, []) = Some (m', ec')"
    and mo': "\<forall>r. map_of ec' r =
        (if \<exists>x\<in>?R. raiz m x r then Some {x \<in> ?R. raiz m x r} else None)"
    and d: "distinct (map fst ec')"
    by auto
  have mo: "map_of ec' r = (if \<exists>x\<in>?R. raiz m x r then Some {x \<in> ?R. raiz m x r} else None)" for r
    using mo' by simp
  have "set (map snd ec') = ran (map_of ec')" using d by (simp add: ran_distinct)
  also have "\<dots> = classe m ?R ` ?R"
  proof (intro set_eqI iffI)
    fix c assume "c \<in> ran (map_of ec')"
    then obtain r0 where "map_of ec' r0 = Some c" unfolding ran_def by blast
    with mo [of r0] obtain x where x: "x \<in> ?R" "raiz m x r0" and c: "c = {x \<in> ?R. raiz m x r0}"
      by (auto split: if_splits)
    from classe_raiz [OF x(2), of ?R] c have "c = classe m ?R x" by simp
    with x(1) show "c \<in> classe m ?R ` ?R" by simp
  next
    fix c assume "c \<in> classe m ?R ` ?R"
    then obtain x where x: "x \<in> ?R" and c: "c = classe m ?R x" by blast
    from ok x obtain r0 where r0: "raiz m x r0" unfolding dsu_ok_def by blast
    from classe_raiz [OF r0, of ?R] c have "c = {x \<in> ?R. raiz m x r0}" by simp
    moreover from x r0 have "\<exists>x\<in>?R. raiz m x r0" by blast
    ultimately have "map_of ec' r0 = Some c" using mo [of r0] by simp
    then show "c \<in> ran (map_of ec')" unfolding ran_def by blast
  qed
  finally have "set (map snd ec') = classe m ?R ` ?R" .
  with r show ?thesis by (intro exI conjI)
qed

section \<open>Properties of the construction\<close>

lemma destino_busca: "destino afd q s = busca (transicoes afd) q s"
  by (simp add: destino_def busca_def)

lemma classe_propria: "dsu_ok R m \<Longrightarrow> x \<in> R \<Longrightarrow> x \<in> classe m R x"
  unfolding classe_def using mesma_raiz_refl [of R m x] by simp

lemma classe_igual:
  assumes "y \<in> classe m R x"
  shows "classe m R y = classe m R x"
proof -
  from assms have xy: "mesma_raiz m x y" unfolding classe_def by simp
  then have yx: "mesma_raiz m y x" by (rule mesma_raiz_sym)
  have "mesma_raiz m y z \<longleftrightarrow> mesma_raiz m x z" for z
  proof
    assume "mesma_raiz m y z"
    with xy show "mesma_raiz m x z" by (rule mesma_raiz_trans)
  next
    assume "mesma_raiz m x z"
    with yx show "mesma_raiz m y z" by (rule mesma_raiz_trans)
  qed
  then show ?thesis unfolding classe_def by simp
qed

lemma classe_subset: "classe m R x \<subseteq> R"
  unfolding classe_def by blast

lemma state_to_class_fold_Some:
  "fold (\<lambda>fs m. (\<lambda>orig. if orig \<in> fs then Some fs else m orig)) cs m0 x = Some c \<Longrightarrow>
   (c \<in> set cs \<and> x \<in> c) \<or> m0 x = Some c"
proof (induction cs arbitrary: m0)
  case Nil
  then show ?case by simp
next
  case (Cons a cs)
  let ?m1 = "\<lambda>orig. if orig \<in> a then Some a else m0 orig"
  from Cons.prems have "fold (\<lambda>fs m. (\<lambda>orig. if orig \<in> fs then Some fs else m orig)) cs ?m1 x = Some c"
    by simp
  from Cons.IH [OF this] have "(c \<in> set cs \<and> x \<in> c) \<or> ?m1 x = Some c" .
  then show ?case by (auto split: if_splits)
qed

lemma state_to_class_fold_definido:
  "m0 x \<noteq> None \<Longrightarrow>
   fold (\<lambda>fs m. (\<lambda>orig. if orig \<in> fs then Some fs else m orig)) cs m0 x \<noteq> None"
proof (induction cs arbitrary: m0)
  case Nil
  then show ?case by simp
next
  case (Cons a cs)
  let ?m1 = "\<lambda>orig. if orig \<in> a then Some a else m0 orig"
  from Cons.prems have "?m1 x \<noteq> None" by simp
  then have "fold (\<lambda>fs m. (\<lambda>orig. if orig \<in> fs then Some fs else m orig)) cs ?m1 x \<noteq> None"
    by (rule Cons.IH [of ?m1])
  then show ?case by simp
qed

lemma state_to_class_fold_existe:
  "c \<in> set cs \<Longrightarrow> x \<in> c \<Longrightarrow>
   fold (\<lambda>fs m. (\<lambda>orig. if orig \<in> fs then Some fs else m orig)) cs m0 x \<noteq> None"
proof (induction cs arbitrary: m0)
  case Nil
  then show ?case by simp
next
  case (Cons a cs)
  let ?m1 = "\<lambda>orig. if orig \<in> a then Some a else m0 orig"
  show ?case
  proof (cases "c \<in> set cs")
    case True
    from Cons.IH [OF True Cons.prems(2), of ?m1] show ?thesis by simp
  next
    case False
    with Cons.prems have "c = a" by simp
    with Cons.prems(2) have "?m1 x \<noteq> None" by simp
    then have "fold (\<lambda>fs m. (\<lambda>orig. if orig \<in> fs then Some fs else m orig)) cs ?m1 x \<noteq> None"
      by (rule state_to_class_fold_definido [of ?m1 x cs])
    then show ?thesis by simp
  qed
qed

lemma state_to_class_Some:
  assumes "state_to_class cs x = Some c"
  shows "c \<in> set cs \<and> x \<in> c"
  using state_to_class_fold_Some [of cs Map.empty x c] assms
  unfolding state_to_class_def by simp

lemma state_to_class_existe:
  assumes "c \<in> set cs" "x \<in> c"
  shows "\<exists>c'. state_to_class cs x = Some c'"
  using state_to_class_fold_existe [OF assms, of Map.empty]
  unfolding state_to_class_def by simp

lemma state_to_class_classe:
  assumes ok: "dsu_ok R m" and cs: "set cs = classe m R ` R" and x: "x \<in> R"
  shows "state_to_class cs x = Some (classe m R x)"
proof -
  have a: "classe m R x \<in> set cs" using cs x by simp
  have b: "x \<in> classe m R x" using ok x by (rule classe_propria)
  from state_to_class_existe [OF a b] obtain c where c: "state_to_class cs x = Some c" ..
  from state_to_class_Some [OF c] have cc: "c \<in> set cs" and xc: "x \<in> c" by simp_all
  from cc cs obtain y where y: "y \<in> R" "c = classe m R y" by auto
  from xc y(2) have "x \<in> classe m R y" by simp
  then have "classe m R x = classe m R y" by (rule classe_igual)
  with c y(2) show ?thesis by simp
qed

lemma set_update_subset: "set (AList.update k v al) \<subseteq> insert (k, v) (set al)"
  by (induction al) auto

lemma busca_update:
  "busca (AList.update c (AList.update s v (case map_of mt c of None \<Rightarrow> [] | Some l \<Rightarrow> l)) mt)
         c' s' =
   (if c' = c \<and> s' = s then Some v else busca mt c' s')"
  by (simp add: busca_def update_conv' split: option.splits)

lemma bem_formada_linha:
  assumes bf: "bem_formada S A mt"
  shows "\<forall>(s, d)\<in>set (case map_of mt c of None \<Rightarrow> [] | Some l \<Rightarrow> l). s \<in> A \<and> d \<in> S"
proof (cases "map_of mt c")
  case None
  then show ?thesis by simp
next
  case (Some l)
  then have "(c, l) \<in> set mt" by (rule map_of_SomeD)
  with bf have "\<forall>(s, d)\<in>set l. s \<in> A \<and> d \<in> S" unfolding bem_formada_def by fastforce
  with Some show ?thesis by simp
qed

lemma bem_formada_update:
  assumes bf: "bem_formada S A mt" and c: "c \<in> S" and s: "s \<in> A" and v: "v \<in> S"
  shows "bem_formada S A
           (AList.update c (AList.update s v (case map_of mt c of None \<Rightarrow> [] | Some l \<Rightarrow> l)) mt)"
proof -
  define row where "row = (case map_of mt c of None \<Rightarrow> [] | Some l \<Rightarrow> l)"
  have row: "\<forall>(s, d)\<in>set row. s \<in> A \<and> d \<in> S"
    unfolding row_def using bf by (rule bem_formada_linha)
  have row': "\<forall>(s, d)\<in>set (AList.update s v row). s \<in> A \<and> d \<in> S"
  proof
    fix sd assume "sd \<in> set (AList.update s v row)"
    with set_update_subset [of s v row] have "sd = (s, v) \<or> sd \<in> set row" by auto
    then show "case sd of (s, d) \<Rightarrow> s \<in> A \<and> d \<in> S"
    proof
      assume "sd = (s, v)"
      with s v show ?thesis by simp
    next
      assume "sd \<in> set row"
      with row show ?thesis by simp
    qed
  qed
  have "bem_formada S A (AList.update c (AList.update s v row) mt)"
    unfolding bem_formada_def
  proof
    fix kl assume "kl \<in> set (AList.update c (AList.update s v row) mt)"
    with set_update_subset [of c "AList.update s v row" mt]
    have "kl = (c, AList.update s v row) \<or> kl \<in> set mt" by auto
    then show "case kl of (k, linha) \<Rightarrow> k \<in> S \<and> (\<forall>(s, d)\<in>set linha. s \<in> A \<and> d \<in> S)"
    proof
      assume "kl = (c, AList.update s v row)"
      with c row' show ?thesis by simp
    next
      assume "kl \<in> set mt"
      with bf show ?thesis unfolding bem_formada_def by simp
    qed
  qed
  then show ?thesis unfolding row_def .
qed


lemma transicoes_classe_spec:
  assumes tot: "\<forall>d\<in>set alc. \<exists>cl\<in>S. s2c d = Some cl" and c: "c \<in> S"
  shows "set ss \<subseteq> A \<Longrightarrow> bem_formada S A mt \<Longrightarrow>
    \<exists>mt'. transicoes_classe afd alc s2c c rep ss mt = Some mt' \<and> bem_formada S A mt' \<and>
      (\<forall>c' s'. busca mt' c' s' =
         (if c' = c \<and> s' \<in> set ss \<and> (\<exists>d\<in>set alc. destino afd rep s' = Some d)
          then Option.bind (destino afd rep s') s2c else busca mt c' s'))"
proof (induction ss arbitrary: mt)
  case Nil
  then show ?case by simp
next
  case (Cons s ss)
  from Cons.prems(1) have sA: "s \<in> A" and ssA: "set ss \<subseteq> A" by simp_all
  show ?case
  proof (cases "\<exists>d\<in>set alc. destino afd rep s = Some d")
    case False
    then have step: "transicoes_classe afd alc s2c c rep (s # ss) mt =
                     transicoes_classe afd alc s2c c rep ss mt"
      by (cases "destino afd rep s") auto
    from Cons.IH [OF ssA Cons.prems(2)] obtain mt' where r:
      "transicoes_classe afd alc s2c c rep ss mt = Some mt'" "bem_formada S A mt'"
      "\<forall>c' s'. busca mt' c' s' =
         (if c' = c \<and> s' \<in> set ss \<and> (\<exists>d\<in>set alc. destino afd rep s' = Some d)
          then Option.bind (destino afd rep s') s2c else busca mt c' s')"
      by blast
    have 3: "\<forall>c' s'. busca mt' c' s' =
         (if c' = c \<and> s' \<in> set (s # ss) \<and> (\<exists>d\<in>set alc. destino afd rep s' = Some d)
          then Option.bind (destino afd rep s') s2c else busca mt c' s')"
    proof (intro allI)
      fix c' s'
      show "busca mt' c' s' =
         (if c' = c \<and> s' \<in> set (s # ss) \<and> (\<exists>d\<in>set alc. destino afd rep s' = Some d)
          then Option.bind (destino afd rep s') s2c else busca mt c' s')"
      proof (cases "s' = s")
        case True
        with False r(3) [rule_format, of c' s'] show ?thesis by simp
      next
        case ns: False
        with r(3) [rule_format, of c' s'] show ?thesis by simp
      qed
    qed
    from step r(1,2) 3 show ?thesis by simp
  next
    case True
    then obtain d where d: "d \<in> set alc" "destino afd rep s = Some d" by blast
    from tot d(1) obtain cl where cl: "cl \<in> S" "s2c d = Some cl" by blast
    define mt1 where "mt1 = AList.update c
                         (AList.update s cl
                            (case map_of mt c of None \<Rightarrow> [] | Some linha \<Rightarrow> linha)) mt"
    have step: "transicoes_classe afd alc s2c c rep (s # ss) mt =
                transicoes_classe afd alc s2c c rep ss mt1"
      using d cl unfolding mt1_def by simp
    have bf1: "bem_formada S A mt1"
      unfolding mt1_def using Cons.prems(2) c sA cl(1) by (rule bem_formada_update)
    have b1: "busca mt1 c' s' = (if c' = c \<and> s' = s then Some cl else busca mt c' s')" for c' s'
      unfolding mt1_def by (rule busca_update)
    from Cons.IH [OF ssA bf1] obtain mt' where r:
      "transicoes_classe afd alc s2c c rep ss mt1 = Some mt'" "bem_formada S A mt'"
      "\<forall>c' s'. busca mt' c' s' =
         (if c' = c \<and> s' \<in> set ss \<and> (\<exists>d\<in>set alc. destino afd rep s' = Some d)
          then Option.bind (destino afd rep s') s2c else busca mt1 c' s')"
      by blast
    have 3: "\<forall>c' s'. busca mt' c' s' =
         (if c' = c \<and> s' \<in> set (s # ss) \<and> (\<exists>d\<in>set alc. destino afd rep s' = Some d)
          then Option.bind (destino afd rep s') s2c else busca mt c' s')"
    proof (intro allI)
      fix c' s'
      show "busca mt' c' s' =
         (if c' = c \<and> s' \<in> set (s # ss) \<and> (\<exists>d\<in>set alc. destino afd rep s' = Some d)
          then Option.bind (destino afd rep s') s2c else busca mt c' s')"
      proof (cases "c' = c \<and> s' = s")
        case True
        then have "busca mt' c' s' = Some cl"
          using d cl by (simp add: r(3) [rule_format] b1)
        with True d cl show ?thesis by simp
      next
        case False
        then have "busca mt1 c' s' = busca mt c' s'" by (auto simp: b1)
        with False show ?thesis by (auto simp: r(3) [rule_format])
      qed
    qed
    from step r(1,2) 3 show ?thesis by simp
  qed
qed

lemma transicoes_min_spec:
  assumes tot: "\<forall>d\<in>set alc. \<exists>cl\<in>S. s2c d = Some cl" and al: "set (alfabeto afd) \<subseteq> A"
  shows "set cs \<subseteq> S \<Longrightarrow> {} \<notin> set cs \<Longrightarrow> bem_formada S A mt \<Longrightarrow>
    \<exists>mt'. transicoes_min primeiro afd alc s2c cs mt = Some mt' \<and> bem_formada S A mt' \<and>
      (\<forall>c' s'. busca mt' c' s' =
         (if c' \<in> set cs \<and> s' \<in> set (alfabeto afd) \<and>
             (\<exists>d\<in>set alc. destino afd (primeiro c') s' = Some d)
          then Option.bind (destino afd (primeiro c') s') s2c else busca mt c' s'))"
proof (induction cs arbitrary: mt)
  case Nil
  then show ?case by simp
next
  case (Cons c cs)
  from Cons.prems have cS: "c \<in> S" and csS: "set cs \<subseteq> S" and cne: "c \<noteq> {}"
    and csne: "{} \<notin> set cs" by auto
  from transicoes_classe_spec [OF tot cS al Cons.prems(3), of afd "primeiro c"]
  obtain mt1 where m1:
    "transicoes_classe afd alc s2c c (primeiro c) (alfabeto afd) mt = Some mt1"
    "bem_formada S A mt1"
    "\<forall>c' s'. busca mt1 c' s' =
         (if c' = c \<and> s' \<in> set (alfabeto afd) \<and>
             (\<exists>d\<in>set alc. destino afd (primeiro c) s' = Some d)
          then Option.bind (destino afd (primeiro c) s') s2c else busca mt c' s')"
    by blast
  from Cons.IH [OF csS csne m1(2)] obtain mt' where r:
    "transicoes_min primeiro afd alc s2c cs mt1 = Some mt'" "bem_formada S A mt'"
    "\<forall>c' s'. busca mt' c' s' =
         (if c' \<in> set cs \<and> s' \<in> set (alfabeto afd) \<and>
             (\<exists>d\<in>set alc. destino afd (primeiro c') s' = Some d)
          then Option.bind (destino afd (primeiro c') s') s2c else busca mt1 c' s')"
    by blast
  have step: "transicoes_min primeiro afd alc s2c (c # cs) mt = Some mt'"
    using cne m1(1) r(1) by simp
  have 3: "\<forall>c' s'. busca mt' c' s' =
         (if c' \<in> set (c # cs) \<and> s' \<in> set (alfabeto afd) \<and>
             (\<exists>d\<in>set alc. destino afd (primeiro c') s' = Some d)
          then Option.bind (destino afd (primeiro c') s') s2c else busca mt c' s')"
  proof (intro allI)
    fix c' s'
    show "busca mt' c' s' =
         (if c' \<in> set (c # cs) \<and> s' \<in> set (alfabeto afd) \<and>
             (\<exists>d\<in>set alc. destino afd (primeiro c') s' = Some d)
          then Option.bind (destino afd (primeiro c') s') s2c else busca mt c' s')"
      by (auto simp: r(3) [rule_format] m1(3) [rule_format])
  qed
  from step r(2) 3 show ?case by simp
qed


lemma busca_Nil: "busca [] c s = None"
  by (simp add: busca_def)

lemma bem_formada_Nil: "bem_formada S A []"
  by (simp add: bem_formada_def)

lemma construir_minimizado_spec:
  fixes afd :: "('q, 's) AFD"
  assumes q0: "inicial afd = Some q0" "q0 \<in> set alc"
    and u: "unir_pares M ps (DSU_init alc) = Some m" and ok: "dsu_ok (set alc) m"
  shows "\<exists>mafd. construir_minimizado primeiro afd alc ps M fa = Some (Some mafd) \<and>
     alfabeto mafd = remdups (alfabeto afd) \<and>
     set (estados mafd) = classe m (set alc) ` set alc \<and>
     inicial mafd = Some (classe m (set alc) q0) \<and>
     set (finais mafd) = {c \<in> classe m (set alc) ` set alc. \<exists>s\<in>c. s \<in> set fa} \<and>
     bem_formada (classe m (set alc) ` set alc) (set (alfabeto afd)) (transicoes mafd) \<and>
     (\<forall>c s. destino mafd c s =
        (if c \<in> classe m (set alc) ` set alc \<and> s \<in> set (alfabeto afd)
         then (case destino afd (primeiro c) s of
                 None \<Rightarrow> None
               | Some d \<Rightarrow> if d \<in> set alc then Some (classe m (set alc) d) else None)
         else None))"
proof -
  let ?R = "set alc"
  let ?S = "classe m ?R ` ?R"
  from agrupar_classes [OF ok] obtain m' ec' where ag: "agrupar alc (m, []) = Some (m', ec')"
    and cls: "set (map snd ec') = ?S" by blast
  define cs where "cs = remdups (map snd ec')"
  have scs: "set cs = ?S" unfolding cs_def using cls by simp
  have csne: "cs \<noteq> []" using scs q0(2) by auto
  define s2c where "s2c = state_to_class cs"
  have s2c: "s2c d = Some (classe m ?R d)" if "d \<in> ?R" for d
    unfolding s2c_def using ok scs that by (rule state_to_class_classe)
  have tot: "\<forall>d\<in>set alc. \<exists>cl\<in>?S. s2c d = Some cl"
  proof
    fix d assume d: "d \<in> set alc"
    then have "classe m ?R d \<in> ?S" by simp
    with s2c [OF d] show "\<exists>cl\<in>?S. s2c d = Some cl" by simp
  qed
  have nemp: "{} \<notin> set cs"
  proof
    assume "{} \<in> set cs"
    with scs obtain x where x: "x \<in> ?R" "classe m ?R x = {}" by auto
    from classe_propria [OF ok x(1)] x(2) show False by simp
  qed
  have sub: "set cs \<subseteq> ?S" using scs by simp
  from transicoes_min_spec [where afd = afd and primeiro = primeiro
      and A = "set (alfabeto afd)", OF tot subset_refl sub nemp bem_formada_Nil]
  obtain mt where mt: "transicoes_min primeiro afd alc s2c cs [] = Some mt"
    and bf: "bem_formada ?S (set (alfabeto afd)) mt"
    and bu: "\<forall>c' s'. busca mt c' s' =
         (if c' \<in> set cs \<and> s' \<in> set (alfabeto afd) \<and>
             (\<exists>d\<in>set alc. destino afd (primeiro c') s' = Some d)
          then Option.bind (destino afd (primeiro c') s') s2c else busca [] c' s')"
    by blast
  define fs where "fs = filter (\<lambda>c. \<exists>s\<in>c. s \<in> set fa) cs"
  define mafd where "mafd = AFD_init (alfabeto afd) cs (Some (classe m ?R q0)) fs mt"
  have ecne: "ec' \<noteq> []" using csne unfolding cs_def by auto
  have c: "construir_minimizado primeiro afd alc ps M fa = Some (Some mafd)"
    unfolding construir_minimizado_def mafd_def fs_def
    using u ag csne ecne mt q0 s2c [OF q0(2)]
    by (simp add: cs_def [symmetric] s2c_def [symmetric] Let_def)
  have 1: "alfabeto mafd = remdups (alfabeto afd)" by (simp add: mafd_def AFD_init_def)
  have 2: "set (estados mafd) = ?S" using scs by (simp add: mafd_def AFD_init_def)
  have 3: "inicial mafd = Some (classe m ?R q0)" by (simp add: mafd_def AFD_init_def)
  have 4: "set (finais mafd) = {c \<in> ?S. \<exists>s\<in>c. s \<in> set fa}"
    using scs by (auto simp: mafd_def AFD_init_def fs_def)
  have 5: "bem_formada ?S (set (alfabeto afd)) (transicoes mafd)"
    using bf by (simp add: mafd_def AFD_init_def)
  have 6: "\<forall>c s. destino mafd c s =
        (if c \<in> ?S \<and> s \<in> set (alfabeto afd)
         then (case destino afd (primeiro c) s of
                 None \<Rightarrow> None
               | Some d \<Rightarrow> if d \<in> set alc then Some (classe m ?R d) else None)
         else None)"
  proof (intro allI)
    fix c s
    have "destino mafd c s = busca mt c s"
      by (simp add: destino_busca mafd_def AFD_init_def)
    also have "\<dots> = (if c \<in> ?S \<and> s \<in> set (alfabeto afd)
         then (case destino afd (primeiro c) s of
                 None \<Rightarrow> None
               | Some d \<Rightarrow> if d \<in> set alc then Some (classe m ?R d) else None)
         else None)"
    proof (cases "destino afd (primeiro c) s")
      case None
      then show ?thesis by (simp add: bu [rule_format] busca_Nil)
    next
      case (Some d)
      show ?thesis
      proof (cases "d \<in> set alc")
        case True
        with Some s2c [OF True] scs show ?thesis
          by (simp add: bu [rule_format] busca_Nil)
      next
        case False
        with Some scs show ?thesis by (simp add: bu [rule_format] busca_Nil)
      qed
    qed
    finally show "destino mafd c s =
        (if c \<in> ?S \<and> s \<in> set (alfabeto afd)
         then (case destino afd (primeiro c) s of
                 None \<Rightarrow> None
               | Some d \<Rightarrow> if d \<in> set alc then Some (classe m ?R d) else None)
         else None)" .
  qed
  from c 1 2 3 4 5 6 show ?thesis by (intro exI conjI)
qed

section \<open>Properties of the table filling\<close>

lemma combinations2_subset: "(p, q) \<in> set (combinations2 xs) \<Longrightarrow> p \<in> set xs \<and> q \<in> set xs"
  by (induction xs) auto

lemma combinations2_distintos:
  "distinct xs \<Longrightarrow> (p, q) \<in> set (combinations2 xs) \<Longrightarrow> p \<noteq> q"
proof (induction xs)
  case Nil
  then show ?case by simp
next
  case (Cons x xs)
  from Cons.prems(2) have "(p = x \<and> q \<in> set xs) \<or> (p, q) \<in> set (combinations2 xs)" by auto
  then show ?case
  proof
    assume "p = x \<and> q \<in> set xs"
    with Cons.prems(1) show ?thesis by auto
  next
    assume "(p, q) \<in> set (combinations2 xs)"
    with Cons.IH Cons.prems(1) show ?thesis by simp
  qed
qed

lemma combinations2_completo:
  "p \<in> set xs \<Longrightarrow> q \<in> set xs \<Longrightarrow> p \<noteq> q \<Longrightarrow>
   (p, q) \<in> set (combinations2 xs) \<or> (q, p) \<in> set (combinations2 xs)"
proof (induction xs)
  case Nil
  then show ?case by simp
next
  case (Cons x xs)
  show ?case
  proof (cases "p = x")
    case True
    with Cons.prems have "q \<in> set xs" by auto
    with True show ?thesis by simp
  next
    case False
    show ?thesis
    proof (cases "q = x")
      case True
      with Cons.prems False have "p \<in> set xs" by auto
      with True show ?thesis by simp
    next
      case nq: False
      with False Cons.prems have "p \<in> set xs" "q \<in> set xs" by auto
      from Cons.IH [OF this Cons.prems(3)] show ?thesis by auto
    qed
  qed
qed

lemma marca_par_iff:
  "marca_par afd M p q ss \<longleftrightarrow>
   (\<exists>s\<in>set ss. \<exists>p' q'. destino afd p s = Some p' \<and> destino afd q s = Some q' \<and>
                        p' \<noteq> q' \<and> {p', q'} \<in> M)"
proof (induction ss)
  case Nil
  show ?case by simp
next
  case (Cons s ss)
  show ?case
  proof (cases "destino afd p s")
    case None
    with Cons show ?thesis by simp
  next
    case (Some p')
    note sp = Some
    show ?thesis
    proof (cases "destino afd q s")
      case None
      with Cons sp show ?thesis by simp
    next
      case (Some q')
      with Cons sp show ?thesis by auto
    qed
  qed
qed

lemma passada_eq:
  "passada afd M ps N =
     N \<union> {{p, q} | p q. (p, q) \<in> set ps \<and> {p, q} \<notin> M \<and> marca_par afd M p q (alfabeto afd)}"
proof (induction ps arbitrary: N)
  case Nil
  show ?case by simp
next
  case (Cons a ps)
  obtain p q where a: "a = (p, q)" by (cases a)
  show ?case unfolding a by (auto simp: Cons.IH)
qed


lemma iteracao_unfold:
  "iteracao afd ps M passo =
     (if passada afd M ps {} = {} then ([Info (NenhumaNovaMarcacao passo)], M, passo)
      else ([Step_update passo (passada afd M ps {}),
             Step_table passo (M \<union> passada afd M ps {})]
            @ fst (iteracao afd ps (M \<union> passada afd M ps {}) (passo + 1)),
            snd (iteracao afd ps (M \<union> passada afd M ps {}) (passo + 1))))"
  by (subst iteracao.simps) (simp add: Let_def)

lemma iteracao_invariante:
  "Q M \<Longrightarrow> (\<forall>M'. Q M' \<longrightarrow> Q (M' \<union> passada afd M' ps {})) \<Longrightarrow>
   Q (fst (snd (iteracao afd ps M passo))) \<and>
   passada afd (fst (snd (iteracao afd ps M passo))) ps {} = {} \<and>
   M \<subseteq> fst (snd (iteracao afd ps M passo)) \<and>
   (\<forall>e\<in>set (fst (iteracao afd ps M passo)). tipo e \<noteq> ''result'' \<and> tipo e \<noteq> ''error'') \<and>
   (\<forall>k T. Step_table k T \<in> set (fst (iteracao afd ps M passo)) \<longrightarrow> Q T)"
proof (induction afd ps M passo rule: iteracao.induct)
  case (1 afd ps M passo)
  let ?N = "passada afd M ps {}"
  show ?case
  proof (cases "?N = {}")
    case True
    then have eq: "iteracao afd ps M passo = ([Info (NenhumaNovaMarcacao passo)], M, passo)"
      by (subst iteracao_unfold) simp
    show ?thesis unfolding eq using True "1.prems"(1) by simp
  next
    case False
    let ?r = "iteracao afd ps (M \<union> ?N) (passo + 1)"
    have eq: "iteracao afd ps M passo =
              ([Step_update passo ?N, Step_table passo (M \<union> ?N)] @ fst ?r, snd ?r)"
      using False by (subst iteracao_unfold) simp
    have q: "Q (M \<union> ?N)" using "1.prems" by simp
    from "1.IH" [OF refl False q "1.prems"(2)]
    have ih: "Q (fst (snd ?r))" "passada afd (fst (snd ?r)) ps {} = {}"
      "M \<union> ?N \<subseteq> fst (snd ?r)"
      "\<forall>e\<in>set (fst ?r). tipo e \<noteq> ''result'' \<and> tipo e \<noteq> ''error''"
      "\<forall>k T. Step_table k T \<in> set (fst ?r) \<longrightarrow> Q T"
      by simp_all
    show ?thesis unfolding eq using ih q by auto
  qed
qed


lemma minimizar_afd_eq:
  assumes "encontrar_estados_alcancaveis afd \<noteq> []"
  shows "minimizar_afd primeiro afd =
     (case construir_minimizado primeiro afd (encontrar_estados_alcancaveis afd)
             (state_pairs afd) (marcacao_final afd) (finais_alcancaveis afd) of
        None \<Rightarrow> None
      | Some None \<Rightarrow> Some (eventos_antes afd @ [Error NenhumaClasse])
      | Some (Some minimized_afd) \<Rightarrow>
          Some (eventos_antes afd @ [Info ConstrucaoConcluida, Result minimized_afd]))"
  using assms encontrar_inicial [OF assms]
  unfolding minimizar_afd_def eventos_antes_def eventos_iteracao_def marcacao_final_def
    marcacao_passo0_def non_finais_alcancaveis_def finais_alcancaveis_def state_pairs_def
    Let_def split_beta
  by (simp only: if_False if_True simp_thms)

lemma marcacao_inicial_eq:
  "marcacao_inicial fs ns = {{p, q} | p q. p \<in> set fs \<and> q \<in> set ns \<and> p \<noteq> q}"
proof -
  have inner0: "fold (\<lambda>q marked. if p \<noteq> q then insert {p, q} marked else marked) ns M =
               M \<union> {{p, q} | q. q \<in> set ns \<and> p \<noteq> q}" for p M
    by (induction ns arbitrary: M) auto
  have inner: "fold (\<lambda>q marked. if p \<noteq> q then insert {p, q} marked else marked) ns =
               (\<lambda>M. M \<union> {{p, q} | q. q \<in> set ns \<and> p \<noteq> q})" for p
    by (rule ext) (rule inner0)
  have outer: "fold (\<lambda>p marked. marked \<union> {{p, q} | q. q \<in> set ns \<and> p \<noteq> q}) fs M =
               M \<union> {{p, q} | p q. p \<in> set fs \<and> q \<in> set ns \<and> p \<noteq> q}" for M
  proof (induction fs arbitrary: M)
    case Nil
    show ?case by simp
  next
    case (Cons a fs)
    have "fold (\<lambda>p marked. marked \<union> {{p, q} | q. q \<in> set ns \<and> p \<noteq> q}) (a # fs) M =
          (M \<union> {{a, q} | q. q \<in> set ns \<and> a \<noteq> q}) \<union>
          {{p, q} | p q. p \<in> set fs \<and> q \<in> set ns \<and> p \<noteq> q}"
      by (simp add: Cons.IH)
    also have "\<dots> = M \<union> {{p, q} | p q. p \<in> set (a # fs) \<and> q \<in> set ns \<and> p \<noteq> q}"
      by auto
    finally show ?case .
  qed
  have "marcacao_inicial fs ns =
        fold (\<lambda>p marked. marked \<union> {{p, q} | q. q \<in> set ns \<and> p \<noteq> q}) fs {}"
    unfolding marcacao_inicial_def by (simp only: inner)
  then show ?thesis by (simp add: outer)
qed

lemma state_pairs_props:
  fixes afd :: "('q::linorder, 's) AFD"
  shows "(p, q) \<in> set (state_pairs afd) \<Longrightarrow>
           p \<in> set (encontrar_estados_alcancaveis afd) \<and>
           q \<in> set (encontrar_estados_alcancaveis afd) \<and> p \<noteq> q"
    and "p \<in> set (encontrar_estados_alcancaveis afd) \<Longrightarrow>
         q \<in> set (encontrar_estados_alcancaveis afd) \<Longrightarrow> p \<noteq> q \<Longrightarrow>
         (p, q) \<in> set (state_pairs afd) \<or> (q, p) \<in> set (state_pairs afd)"
proof -
  have d: "distinct (sort (encontrar_estados_alcancaveis afd))"
    using encontrar_distinct [of afd] by simp
  show "(p, q) \<in> set (state_pairs afd) \<Longrightarrow>
           p \<in> set (encontrar_estados_alcancaveis afd) \<and>
           q \<in> set (encontrar_estados_alcancaveis afd) \<and> p \<noteq> q"
    unfolding state_pairs_def
    using combinations2_subset [of p q "sort (encontrar_estados_alcancaveis afd)"]
      combinations2_distintos [OF d, of p q] by simp
  show "p \<in> set (encontrar_estados_alcancaveis afd) \<Longrightarrow>
         q \<in> set (encontrar_estados_alcancaveis afd) \<Longrightarrow> p \<noteq> q \<Longrightarrow>
         (p, q) \<in> set (state_pairs afd) \<or> (q, p) \<in> set (state_pairs afd)"
    unfolding state_pairs_def
    using combinations2_completo [of p "sort (encontrar_estados_alcancaveis afd)" q] by simp
qed

section \<open>The result of the generator\<close>

lemma dsu_final_spec:
  fixes afd :: "('q::linorder, 's) AFD"
  assumes eqs: "\<forall>x y. eq x y \<longrightarrow> eq y x" and eqt: "\<forall>x y z. eq x y \<longrightarrow> eq y z \<longrightarrow> eq x z"
    and eqr: "\<forall>x\<in>set (encontrar_estados_alcancaveis afd). eq x x"
    and un: "\<forall>(p, q)\<in>set (state_pairs afd). {p, q} \<notin> marcacao_final afd \<longrightarrow> eq p q"
  shows "\<exists>m. dsu_final afd = Some m \<and> dsu_ok (set (encontrar_estados_alcancaveis afd)) m \<and>
     (\<forall>x\<in>set (encontrar_estados_alcancaveis afd).
        \<forall>y\<in>set (encontrar_estados_alcancaveis afd). mesma_raiz m x y \<longrightarrow> eq x y) \<and>
     (\<forall>(p, q)\<in>set (state_pairs afd). {p, q} \<notin> marcacao_final afd \<longrightarrow> mesma_raiz m p q)"
proof -
  let ?R = "encontrar_estados_alcancaveis afd"
  have ok0: "dsu_ok (set ?R) (DSU_init ?R)" by (rule DSU_init_ok)
  have inv0: "\<forall>x\<in>set ?R. \<forall>y\<in>set ?R. mesma_raiz (DSU_init ?R) x y \<longrightarrow> eq x y"
  proof (intro ballI impI)
    fix x y assume x: "x \<in> set ?R" and "mesma_raiz (DSU_init ?R) x y"
    then have "x = y" using DSU_init_mesma_raiz by fast
    with eqr x show "eq x y" by simp
  qed
  have ps: "\<forall>(p, q)\<in>set (state_pairs afd). p \<in> set ?R \<and> q \<in> set ?R \<and>
              ({p, q} \<notin> marcacao_final afd \<longrightarrow> eq p q)"
  proof
    fix pq assume a: "pq \<in> set (state_pairs afd)"
    obtain p q where pq: "pq = (p, q)" by (cases pq)
    from a pq state_pairs_props(1) [of p q afd] have "p \<in> set ?R" "q \<in> set ?R" by simp_all
    moreover from un a pq have "{p, q} \<notin> marcacao_final afd \<longrightarrow> eq p q" by auto
    ultimately show "case pq of (p, q) \<Rightarrow> p \<in> set ?R \<and> q \<in> set ?R \<and>
              ({p, q} \<notin> marcacao_final afd \<longrightarrow> eq p q)" unfolding pq by simp
  qed
  from unir_pares_inv [OF eqs eqt ok0 inv0 ps] obtain m where m:
    "unir_pares (marcacao_final afd) (state_pairs afd) (DSU_init ?R) = Some m"
    "dsu_ok (set ?R) m"
    "\<forall>x\<in>set ?R. \<forall>y\<in>set ?R. mesma_raiz m x y \<longrightarrow> eq x y"
    "\<forall>(p, q)\<in>set (state_pairs afd). {p, q} \<notin> marcacao_final afd \<longrightarrow> mesma_raiz m p q"
    by blast
  from m(1) have "dsu_final afd = Some m" unfolding dsu_final_def .
  with m(2,3,4) show ?thesis by (intro exI conjI)
qed

lemma dsu_final_ok:
  fixes afd :: "('q::linorder, 's) AFD"
  shows "\<exists>m. dsu_final afd = Some m \<and> dsu_ok (set (encontrar_estados_alcancaveis afd)) m"
proof -
  from dsu_final_spec [of "\<lambda>x y. True" afd] obtain m where
    "dsu_final afd = Some m" "dsu_ok (set (encontrar_estados_alcancaveis afd)) m"
    by auto
  then show ?thesis by (intro exI conjI)
qed

lemma eventos_antes_nao_terminais:
  fixes afd :: "('q::linorder, 's) AFD"
  shows "\<forall>e\<in>set (eventos_antes afd). tipo e \<noteq> ''result'' \<and> tipo e \<noteq> ''error''"
proof -
  from iteracao_invariante [of "\<lambda>M. True" "marcacao_passo0 afd" afd "state_pairs afd" 1]
  have "\<forall>e\<in>set (eventos_iteracao afd). tipo e \<noteq> ''result'' \<and> tipo e \<noteq> ''error''"
    unfolding eventos_iteracao_def by simp
  then show ?thesis unfolding eventos_antes_def by auto
qed

lemma minimizar_afd_resultado:
  fixes afd :: "('q::linorder, 's) AFD"
  assumes ne: "encontrar_estados_alcancaveis afd \<noteq> []"
  shows "\<exists>q0 m mafd. inicial afd = Some q0 \<and> q0 \<in> set (encontrar_estados_alcancaveis afd) \<and>
     dsu_final afd = Some m \<and> dsu_ok (set (encontrar_estados_alcancaveis afd)) m \<and>
     minimizar_afd primeiro afd =
       Some (eventos_antes afd @ [Info ConstrucaoConcluida, Result mafd]) \<and>
     minimizado_por primeiro afd (encontrar_estados_alcancaveis afd) (finais_alcancaveis afd)
       m q0 mafd"
proof -
  let ?R = "encontrar_estados_alcancaveis afd"
  from ne obtain q0 where q0: "inicial afd = Some q0" by (rule encontrar_nao_vazio)
  from encontrar_inicial [OF ne] q0 have q0R: "q0 \<in> set ?R" by (simp add: inicial_em_def)
  from dsu_final_ok [of afd] obtain m where m: "dsu_final afd = Some m" "dsu_ok (set ?R) m"
    by blast
  from m(1) have u: "unir_pares (marcacao_final afd) (state_pairs afd) (DSU_init ?R) = Some m"
    unfolding dsu_final_def .
  from construir_minimizado_spec [OF q0 q0R u m(2), of primeiro "finais_alcancaveis afd"]
  obtain mafd where c:
    "construir_minimizado primeiro afd ?R (state_pairs afd) (marcacao_final afd)
       (finais_alcancaveis afd) = Some (Some mafd)"
    and rest: "minimizado_por primeiro afd ?R (finais_alcancaveis afd) m q0 mafd"
    unfolding minimizado_por_def by blast
  have e: "minimizar_afd primeiro afd =
       Some (eventos_antes afd @ [Info ConstrucaoConcluida, Result mafd])"
    unfolding minimizar_afd_eq [OF ne] c by simp
  from q0 q0R m e rest show ?thesis by (intro exI conjI)
qed

section \<open>The event sequence of the generator\<close>

text \<open>
  C9. For every input, the generator returns (no exception is raised), and the sequence of
  events it has yielded ends with a terminal event, a \<^verbatim>\<open>result\<close> or an \<^verbatim>\<open>error\<close> event, which is
  the only terminal event of the sequence: no event before it is terminal, and no event
  follows it.
\<close>

theorem minimizar_afd_um_evento_terminal:
  fixes afd :: "('q::linorder, 's) AFD"
  shows "\<exists>evs t. minimizar_afd primeiro afd = Some (evs @ [t]) \<and>
           (tipo t = ''result'' \<or> tipo t = ''error'') \<and>
           (\<forall>e\<in>set evs. tipo e \<noteq> ''result'' \<and> tipo e \<noteq> ''error'')"
proof (cases "encontrar_estados_alcancaveis afd = []")
  case True
  then have "minimizar_afd primeiro afd =
             Some ([Info EncontrandoAlcancaveis] @ [Error NenhumAlcancavel])"
    by (simp add: minimizar_afd_def)
  moreover have "tipo (Error NenhumAlcancavel :: ('q, 's) evento) = ''result'' \<or>
                 tipo (Error NenhumAlcancavel :: ('q, 's) evento) = ''error''" by simp
  moreover have "\<forall>e\<in>set [Info EncontrandoAlcancaveis :: ('q, 's) evento].
                   tipo e \<noteq> ''result'' \<and> tipo e \<noteq> ''error''" by simp
  ultimately show ?thesis by (intro exI conjI)
next
  case False
  from minimizar_afd_resultado [OF False, of primeiro] obtain mafd where
    e: "minimizar_afd primeiro afd =
          Some (eventos_antes afd @ [Info ConstrucaoConcluida, Result mafd])"
    by blast
  then have "minimizar_afd primeiro afd =
          Some ((eventos_antes afd @ [Info ConstrucaoConcluida]) @ [Result mafd])" by simp
  moreover have "tipo (Result mafd :: ('q, 's) evento) = ''result'' \<or>
                 tipo (Result mafd :: ('q, 's) evento) = ''error''" by simp
  moreover have "\<forall>e\<in>set (eventos_antes afd @ [Info ConstrucaoConcluida]).
                   tipo e \<noteq> ''result'' \<and> tipo e \<noteq> ''error''"
    using eventos_antes_nao_terminais [of afd] by simp
  ultimately show ?thesis by (intro exI conjI)
qed

theorem minimizar_afd_um_evento_terminal_witness:
  "\<exists>evs t. minimizar_afd Min cenario_A = Some (evs @ [t]) \<and>
           (tipo t = ''result'' \<or> tipo t = ''error'') \<and>
           (\<forall>e\<in>set evs. tipo e \<noteq> ''result'' \<and> tipo e \<noteq> ''error'')"
  using minimizar_afd_um_evento_terminal [of Min cenario_A] .

section \<open>Structure of the minimized automaton\<close>

text \<open>
  C10. For every input AFD, valid or not, an automaton carried by a \<^verbatim>\<open>result\<close> event of
  \<^verbatim>\<open>minimizar_afd\<close> is structurally consistent (its initial state is one of its states, its
  final states are among its states, and every transition has a source and a destination
  among its states and a symbol of its alphabet), its alphabet is the alphabet of the
  input, and each of its states is a non-empty set of state labels of the input.
\<close>

theorem minimizar_afd_resultado_consistente:
  fixes afd :: "('q::linorder, 's) AFD"
  assumes run: "minimizar_afd primeiro afd = Some evs" and res: "Result m \<in> set evs"
  shows "consistente m \<and> set (alfabeto m) = set (alfabeto afd) \<and>
         (\<forall>c\<in>set (estados m). c \<noteq> {} \<and> c \<subseteq> set (estados afd))"
proof (cases "encontrar_estados_alcancaveis afd = []")
  case True
  then have "minimizar_afd primeiro afd =
             Some [Info EncontrandoAlcancaveis, Error NenhumAlcancavel]"
    by (simp add: minimizar_afd_def)
  with run have "evs = [Info EncontrandoAlcancaveis, Error NenhumAlcancavel]" by simp
  with res show ?thesis by simp
next
  case False
  let ?R = "encontrar_estados_alcancaveis afd"
  from minimizar_afd_resultado [OF False, of primeiro] obtain q0 md mafd where
    q0: "q0 \<in> set ?R" and ok: "dsu_ok (set ?R) md"
    and e: "minimizar_afd primeiro afd =
          Some (eventos_antes afd @ [Info ConstrucaoConcluida, Result mafd])"
    and mp: "minimizado_por primeiro afd ?R (finais_alcancaveis afd) md q0 mafd"
    by blast
  from mp have al: "alfabeto mafd = remdups (alfabeto afd)"
    and es: "set (estados mafd) = classe md (set ?R) ` set ?R"
    and ini: "inicial mafd = Some (classe md (set ?R) q0)"
    and fin: "set (finais mafd) =
       {c \<in> classe md (set ?R) ` set ?R. \<exists>s\<in>c. s \<in> set (finais_alcancaveis afd)}"
    and bf: "bem_formada (classe md (set ?R) ` set ?R) (set (alfabeto afd)) (transicoes mafd)"
    unfolding minimizado_por_def by simp_all
  from run e have evs: "evs = eventos_antes afd @ [Info ConstrucaoConcluida, Result mafd]"
    by simp
  have "Result m \<notin> set (eventos_antes afd)"
  proof
    assume "Result m \<in> set (eventos_antes afd)"
    with eventos_antes_nao_terminais [of afd]
    have "tipo (Result m :: ('q, 's) evento) \<noteq> ''result'' \<and>
          tipo (Result m :: ('q, 's) evento) \<noteq> ''error''"
      by (rule bspec)
    then show False by simp
  qed
  with res have "Result m \<in> set [Info ConstrucaoConcluida, Result mafd]"
    unfolding evs by simp
  then have m: "m = mafd" by simp
  have 1: "inicial_em mafd (set (estados mafd))"
    using ini es q0 by (simp add: inicial_em_def)
  have 2: "set (finais mafd) \<subseteq> set (estados mafd)" using fin es by auto
  have 3: "\<forall>(origem, linha)\<in>set (transicoes mafd).
         origem \<in> set (estados mafd) \<and>
         (\<forall>(simbolo, dest)\<in>set linha.
            simbolo \<in> set (alfabeto mafd) \<and> dest \<in> set (estados mafd))"
    using bf unfolding bem_formada_def es al by simp
  have c: "consistente mafd" unfolding consistente_def using 1 2 3 by simp
  have a: "set (alfabeto mafd) = set (alfabeto afd)" using al by simp
  have s: "\<forall>c\<in>set (estados mafd). c \<noteq> {} \<and> c \<subseteq> set (estados afd)"
  proof
    fix c assume "c \<in> set (estados mafd)"
    with es obtain x where x: "x \<in> set ?R" "c = classe md (set ?R) x" by auto
    from classe_propria [OF ok x(1)] x(2) have "c \<noteq> {}" by blast
    moreover from classe_subset [of md "set ?R" x] x(2) encontrar_subset [of afd]
    have "c \<subseteq> set (estados afd)" by blast
    ultimately show "c \<noteq> {} \<and> c \<subseteq> set (estados afd)" by simp
  qed
  from c a s show ?thesis unfolding m by simp
qed



theorem minimizar_afd_resultado_consistente_witness:
  "minimizar_afd Min cenario_D = Some eventos_D \<and> Result minimizado_D \<in> set eventos_D \<and>
   consistente minimizado_D \<and> set (alfabeto minimizado_D) = set (alfabeto cenario_D) \<and>
   {''p'', ''q''} \<in> set (estados minimizado_D) \<and> {''p'', ''q''} \<subseteq> set (estados cenario_D)"
proof -
  have h1: "minimizar_afd Min cenario_D = Some eventos_D" by code_simp
  have h2: "Result minimizado_D \<in> set eventos_D" by (simp add: eventos_D_def)
  have h3: "{''p'', ''q''} \<in> set (estados minimizado_D)" by (simp add: minimizado_D_def)
  from minimizar_afd_resultado_consistente [OF h1 h2] h1 h2 h3 show ?thesis by auto
qed

end
